theory Spec2Isabelle
  imports Main "HOL-Library.AList" "HOL-Library.Multiset"
begin

section \<open>The reachability engine: \<open>Tree._recurList\<close>\<close>

text \<open>
  \<^verbatim>\<open>
  def _recurList(node, descTreePart, level, down):
      def recur(n, level, currentList):
          if down:
              result = descTreePart.get(n, [])
          else:
              result = [item for (item, l) in descTreePart.items() if n in l]
          if level is None or level > 1:
              for r in list(result):
                  if r not in currentList:  # for FORTRAN recursive calls
                      result.extend(recur(r, None if level is None else level - 1, result))
          return result
      return recur(node, level, [])
  \<close>
  Python lists are objects: in the downward direction \<open>result\<close> is the very list
  stored in the dictionary, \<open>currentList\<close> is the caller's \<open>result\<close>, and
  \<open>extend\<close> changes a list in place. The model therefore keeps every list in a store
  (a list of lists, an address being an index) and the dictionary maps a key to the
  address of its list. Python dictionaries keep insertion order and have unique keys:
  they are association lists here. The recursion of \<open>recur\<close> need not end, so the
  model carries fuel and running out of it is \<open>None\<close>.
\<close>

type_synonym 'a store = "'a list list"

text \<open>A \<open>for\<close> loop whose body may fail to return: the state is threaded through.\<close>

primrec forM :: "'a list \<Rightarrow> ('a \<Rightarrow> 's \<Rightarrow> 's option) \<Rightarrow> 's \<Rightarrow> 's option" where
  "forM [] body s = Some s"
| "forM (x # xs) body s = (case body x s of None \<Rightarrow> None | Some s' \<Rightarrow> forM xs body s')"

text \<open>
  \<open>recur fuel down d n level cur h\<close>: \<open>d\<close> is the dictionary (key to address),
  \<open>cur\<close> the address of \<open>currentList\<close>, \<open>h\<close> the store. The result is the address
  of \<open>result\<close> and the store after the call.
\<close>

fun recur :: "nat \<Rightarrow> bool \<Rightarrow> ('a \<times> nat) list \<Rightarrow> 'a \<Rightarrow> int option \<Rightarrow> nat \<Rightarrow> 'a store
    \<Rightarrow> (nat \<times> 'a store) option" where
  "recur 0 down d n level cur h = None"
| "recur (Suc fuel) down d n level cur h =
     (let (result, h1) =
            (if down then
               (case map_of d n of
                  Some a \<Rightarrow> (a, h)
                | None \<Rightarrow> (length h, h @ [[]]))
             else (length h, h @ [[item. (item, l) \<leftarrow> d, n \<in> set (h ! l)]]))
      in if (case level of None \<Rightarrow> True | Some l \<Rightarrow> l > 1) then
           (case forM (h1 ! result)
                   (\<lambda>r hs.
                      if r \<notin> set (hs ! cur) then
                        (case recur fuel down d r
                                (case level of None \<Rightarrow> None | Some l \<Rightarrow> Some (l - 1))
                                result hs of
                           None \<Rightarrow> None
                         | Some (a, hs') \<Rightarrow> Some (hs'[result := hs' ! result @ hs' ! a]))
                      else Some hs)
                   h1 of
              None \<Rightarrow> None
            | Some h2 \<Rightarrow> Some (result, h2))
         else Some (result, h1))"

text \<open>
  \<open>_recurList\<close>: the dictionary \<open>descTreePart\<close> is laid out in the store, one list
  per key, followed by the empty list passed as the first \<open>currentList\<close>. The result
  is the returned list together with the dictionary as the call leaves it.
\<close>

definition recurList :: "nat \<Rightarrow> 'a \<Rightarrow> ('a \<times> 'a list) list \<Rightarrow> int option \<Rightarrow> bool
    \<Rightarrow> ('a list \<times> ('a \<times> 'a list) list) option" where
  "recurList fuel node descTreePart level down =
     (let keys = map fst descTreePart;
          d = zip keys [0 ..< length keys];
          h = map snd descTreePart @ [[]]
      in case recur fuel down d node level (length keys) h of
           None \<Rightarrow> None
         | Some (a, h') \<Rightarrow> Some (h' ! a, zip keys (take (length keys) h')))"


section \<open>Python values used by the Tree\<close>

datatype error = KeyError | IndexError | ValueError | TypeError | AttributeError
  | UnboundLocalError | RecursionError | ExtractorError

text \<open>A dictionary is an association list in insertion order; \<open>d[k]\<close> raises on a
  missing key, \<open>d[k] = v\<close> keeps the place of a key already there (\<open>AList.update\<close>).\<close>

definition getitem :: "('k \<times> 'v) list \<Rightarrow> 'k \<Rightarrow> error + 'v" where
  "getitem d k = (case map_of d k of None \<Rightarrow> Inl KeyError | Some v \<Rightarrow> Inr v)"

text \<open>\<open>d[k].append(v)\<close> and \<open>d[k].extend(vs)\<close>.\<close>

definition extendAt :: "'k \<Rightarrow> 'v list \<Rightarrow> ('k \<times> 'v list) list \<Rightarrow> error + ('k \<times> 'v list) list" where
  "extendAt k vs d =
     (case map_of d k of None \<Rightarrow> Inl KeyError | Some xs \<Rightarrow> Inr (AList.update k (xs @ vs) d))"

definition bindE :: "error + 'a \<Rightarrow> ('a \<Rightarrow> error + 'b) \<Rightarrow> error + 'b" where
  "bindE m f = (case m of Inl e \<Rightarrow> Inl e | Inr x \<Rightarrow> f x)"

text \<open>A \<open>for\<close> loop whose body may raise.\<close>

primrec forE :: "'a list \<Rightarrow> ('a \<Rightarrow> 's \<Rightarrow> error + 's) \<Rightarrow> 's \<Rightarrow> error + 's" where
  "forE [] body s = Inr s"
| "forE (x # xs) body s = (case body x s of Inl e \<Rightarrow> Inl e | Inr s' \<Rightarrow> forE xs body s')"

text \<open>\<open>s.split(c)\<close> for a one-character separator: never empty, \<open>''.split('/') = ['']\<close>.\<close>

primrec split :: "char \<Rightarrow> string \<Rightarrow> string list" where
  "split c [] = [[]]"
| "split c (x # xs) =
     (if x = c then [] # split c xs
      else (case split c xs of [] \<Rightarrow> [[x]] | y # ys \<Rightarrow> (x # y) # ys))"

text \<open>\<open>c.join(parts)\<close>.\<close>

fun joinWith :: "char \<Rightarrow> string list \<Rightarrow> string" where
  "joinWith c [] = []"
| "joinWith c [p] = p"
| "joinWith c (p # q # ps) = p @ c # joinWith c (q # ps)"

text \<open>\<open>s.rsplit(c, n)\<close>: at most \<open>n\<close> splits, counted from the right.\<close>

definition rsplit :: "char \<Rightarrow> nat \<Rightarrow> string \<Rightarrow> string list" where
  "rsplit c n s =
     (let parts = split c s; k = length parts - 1
      in if k \<le> n then parts
         else joinWith c (take (k - n + 1) parts) # drop (k - n + 1) parts)"

definition startswith :: "string \<Rightarrow> string \<Rightarrow> bool" where
  "startswith s p = (take (length p) s = p)"

text \<open>\<open>list(set(xs))\<close>: the elements of \<open>xs\<close> once each, in an order Python does not
  specify; the model takes the order of \<open>remdups\<close> and the theorems below only use
  the set of elements.\<close>

definition uniq :: "'a list \<Rightarrow> 'a list" where
  "uniq xs = remdups xs"

subsection \<open>\<open>os.path\<close> (posixpath)\<close>

text \<open>
  The string functions of \<open>posixpath\<close> are written out. \<open>os.path.realpath\<close> depends on
  the file system and the working directory: it is a parameter of everything that calls it.
  \<open>abspath cwd\<close> is \<open>realpath\<close> on a file system without symbolic links, for a process
  running in \<open>cwd\<close>.
\<close>

definition isabs :: "string \<Rightarrow> bool" where
  "isabs p = startswith p ''/''"

definition join :: "string \<Rightarrow> string \<Rightarrow> string" where
  "join a b =
     (if startswith b ''/'' then b
      else if a = [] \<or> last a = CHR ''/'' then a @ b
      else a @ ''/'' @ b)"

definition basename :: "string \<Rightarrow> string" where
  "basename p = last (split CHR ''/'' p)"

text \<open>\<open>rstrip('/')\<close>.\<close>

definition rstripSlash :: "string \<Rightarrow> string" where
  "rstripSlash p = rev (dropWhile (\<lambda>c. c = CHR ''/'') (rev p))"

definition dirname :: "string \<Rightarrow> string" where
  "dirname p =
     (let head = take (length p - length (basename p)) p
      in if head \<noteq> [] \<and> head \<noteq> replicate (length head) CHR ''/'' then rstripSlash head
         else head)"

definition normpath :: "string \<Rightarrow> string" where
  "normpath path =
     (if path = [] then ''.''
      else
        let initial_slashes =
              (if startswith path ''/'' then
                 (if startswith path ''//'' \<and> \<not> startswith path ''///'' then 2 else 1)
               else (0::nat));
            comps = foldl (\<lambda>new_comps comp.
                      if comp = [] \<or> comp = ''.'' then new_comps
                      else if comp \<noteq> ''..'' \<or> (initial_slashes = 0 \<and> new_comps = [])
                              \<or> (new_comps \<noteq> [] \<and> last new_comps = ''..'')
                           then new_comps @ [comp]
                      else if new_comps \<noteq> [] then butlast new_comps
                      else new_comps) [] (split CHR ''/'' path);
            p = replicate initial_slashes CHR ''/'' @ joinWith CHR ''/'' comps
        in if p = [] then ''.'' else p)"

definition abspath :: "string \<Rightarrow> string \<Rightarrow> string" where
  "abspath cwd p = normpath (join cwd p)"

section \<open>The Tree object\<close>

text \<open>
  The fields of \<open>Tree\<close> that hold the file records (\<open>_scopes\<close>, \<open>_useList\<close>,
  \<open>_includeList\<close>, \<open>_callList\<close>, \<open>_funcList\<close>, each keyed by file name) and the three
  cached values, \<open>None\<close> when empty. A use statement is the module name with its
  \<open>ONLY\<close> list.
\<close>

type_synonym 'v perScope = "(string \<times> (string \<times> 'v list) list) list"

record tree =
  cwd :: string
  scopes :: "(string \<times> string list) list"
  useList :: "(string \<times> string list) perScope"
  includeList :: "string perScope"
  callList :: "string perScope"
  funcList :: "string perScope"
  cache_compilation_tree :: "(string \<times> string list) list option"
  cache_execution_tree :: "(string \<times> string list) list option"
  cache_incInScope :: "(string \<times> string list) list option"

definition isValid :: "tree \<Rightarrow> bool" where
  "isValid t = (length (scopes t) \<noteq> 0)"

definition emptyCache :: "tree \<Rightarrow> tree" where
  "emptyCache t = t\<lparr>cache_compilation_tree := None, cache_execution_tree := None,
                    cache_incInScope := None\<rparr>"

definition knownFiles :: "tree \<Rightarrow> string list" where
  "knownFiles t = map fst (scopes t)"

definition scopeToFiles :: "(string \<times> string list) list \<Rightarrow> string \<Rightarrow> string list" where
  "scopeToFiles scps scopePath = [filename. (filename, scs) \<leftarrow> scps, scopePath \<in> set scs]"


section \<open>The compilation graph: \<open>Tree._compilation_tree\<close>\<close>

text \<open>
  Lines 191-224: the file an include statement refers to is guessed among the tracked
  files \<open>files\<close> (the keys of the cache, in order). \<open>classify\<close> is the loop over the
  files with its \<open>if/elif/elif\<close>; \<open>guessFile\<close> is the selection that follows and yields
  \<open>(found, incFilename)\<close>.
\<close>

fun classify :: "(string \<Rightarrow> string) \<Rightarrow> string \<Rightarrow> string list
    \<Rightarrow> string list \<times> string list \<times> string list \<Rightarrow> string list \<times> string list \<times> string list" where
  "classify realpath inc [] acc = acc"
| "classify realpath inc (f # fs) (same, subdir, bn) =
     classify realpath inc fs
       (if normpath inc = normpath f then (same @ [f], subdir, bn)
        else if \<not> isabs f \<and> realpath inc = realpath (join (dirname inc) f)
          then (same, subdir @ [f], bn)
        else if basename inc = basename f then (same, subdir, bn @ [f])
        else (same, subdir, bn))"

definition guessFile :: "(string \<Rightarrow> string) \<Rightarrow> string list \<Rightarrow> string \<Rightarrow> bool \<times> string" where
  "guessFile realpath files inc =
     (let (same, subdir, bn) = classify realpath inc files ([], [], []);
          (same, subdir, bn) = (if length same > 1 then ([], [], []) else (same, subdir, bn));
          (subdir, bn) = (if length subdir > 1 then ([], []) else (subdir, bn));
          bn = (if length bn > 1 then [] else bn)
      in if length same > 0 then (True, same ! 0)
         else if length subdir > 0 then (True, subdir ! 0)
         else if length bn > 0 then (True, bn ! 0)
         else (False, inc))"

text \<open>Lines 225-227: what one include statement adds to the two caches.\<close>

definition includeStep :: "(string \<Rightarrow> string) \<Rightarrow> string \<Rightarrow> string \<Rightarrow> string
    \<Rightarrow> (string \<times> string list) list \<times> (string \<times> string list) list
    \<Rightarrow> error + (string \<times> string list) list \<times> (string \<times> string list) list" where
  "includeStep realpath filename scopePath inc = (\<lambda>(ct, iis).
     (let (found, incFilename) = guessFile realpath (map fst ct) inc
      in bindE (extendAt filename [incFilename] ct) (\<lambda>ct'.
           if found then bindE (extendAt scopePath [incFilename] iis) (\<lambda>iis'. Inr (ct', iis'))
           else Inr (ct', iis))))"

text \<open>Lines 235-244: what one use statement adds: the file defining \<open>module:modName\<close>
  when exactly one file does, nothing (a log line) otherwise.\<close>

definition useTarget :: "(string \<times> string list) list \<Rightarrow> string \<Rightarrow> string list" where
  "useTarget scps modName =
     (let moduleScopePath = ''module:'' @ modName;
          found = [f. (f, scs) \<leftarrow> scps, moduleScopePath \<in> set scs]
      in if length found = 1 then [found ! 0] else [])"

definition useStep :: "(string \<times> string list) list \<Rightarrow> string \<Rightarrow> string
    \<Rightarrow> (string \<times> string list) list \<Rightarrow> error + (string \<times> string list) list" where
  "useStep scps filename modName ct =
     (case useTarget scps modName of
        [] \<Rightarrow> Inr ct
      | fs \<Rightarrow> extendAt filename fs ct)"

text \<open>Lines 182-248: the two caches built from the file records.\<close>

definition buildCompilationTree :: "(string \<Rightarrow> string) \<Rightarrow> tree
    \<Rightarrow> error + (string \<times> string list) list \<times> (string \<times> string list) list" where
  "buildCompilationTree realpath t =
     bindE (forE (includeList t) (\<lambda>(filename, incScopePaths).
              forE incScopePaths (\<lambda>(scopePath, incList) (ct, iis).
                forE incList (includeStep realpath filename scopePath)
                  (ct, AList.update scopePath [] iis)))
            (map (\<lambda>(f, _). (f, [])) (scopes t), []))
       (\<lambda>(ct, iis).
          bindE (forE (useList t) (\<lambda>(filename, uList).
                   forE (concat (map snd uList)) (\<lambda>(modName, _). useStep (scopes t) filename modName))
                 ct)
            (\<lambda>ct'. Inr (map (\<lambda>(filename, depList). (filename, uniq depList)) ct', iis)))"

text \<open>The property \<open>_compilation_tree\<close>: fills the caches when the tree is valid and
  the cache empty, and returns the cache.\<close>

definition compilation_tree :: "(string \<Rightarrow> string) \<Rightarrow> tree
    \<Rightarrow> error + tree \<times> (string \<times> string list) list option" where
  "compilation_tree realpath t =
     (if isValid t \<and> cache_compilation_tree t = None then
        bindE (buildCompilationTree realpath t) (\<lambda>(ct, iis).
          Inr (t\<lparr>cache_compilation_tree := Some ct, cache_incInScope := Some iis\<rparr>, Some ct))
      else Inr (t, cache_compilation_tree t))"

text \<open>The property \<open>_incInScope\<close>.\<close>

definition incInScope :: "(string \<Rightarrow> string) \<Rightarrow> tree
    \<Rightarrow> error + tree \<times> (string \<times> string list) list option" where
  "incInScope realpath t =
     (if isValid t \<and> cache_incInScope t = None then
        bindE (compilation_tree realpath t) (\<lambda>(t', _). Inr (t', cache_incInScope t'))
      else Inr (t, cache_incInScope t))"


text \<open>For stating what the graph holds: the include strings and the used module names
  recorded for file \<open>f\<close>, in the order the loops of \<open>_compilation_tree\<close> visit them.\<close>

definition includesOf :: "string perScope \<Rightarrow> string \<Rightarrow> string list" where
  "includesOf il f = [inc. (filename, incScopePaths) \<leftarrow> il, (scopePath, incList) \<leftarrow> incScopePaths,
                        inc \<leftarrow> incList, filename = f]"

definition usesOf :: "(string \<times> string list) perScope \<Rightarrow> string \<Rightarrow> string list" where
  "usesOf ul f = [modName. (filename, uList) \<leftarrow> ul, (modName, only) \<leftarrow> concat (map snd uList),
                     filename = f]"

section \<open>The execution graph: \<open>Tree._execution_tree\<close>\<close>

text \<open>The five lists a call is looked up in: \<open>foundInUse\<close>, \<open>foundElsewhere\<close>,
  \<open>foundInInclude\<close>, \<open>foundInContains\<close>, \<open>foundInSameScope\<close>.\<close>

record found =
  foundInUse :: "string list"
  foundElsewhere :: "string list"
  foundInInclude :: "string list"
  foundInContains :: "string list"
  foundInSameScope :: "string list"

text \<open>
  Lines 275-314, the body of \<open>for kind in (canonicKind, 'interface')\<close> for the call of
  \<open>c\<close> in \<open>scopePath\<close> of \<open>filename\<close>, one function per list: what is added to
  \<open>foundInUse\<close> (lines 276-289, \<open>uses\<close> being \<open>self._useList[filename]\<close>), to
  \<open>foundElsewhere\<close> (292-295), to \<open>foundInInclude\<close> (298-301, \<open>incFiles\<close> being
  \<open>self._incInScope[scopePath]\<close>), to \<open>foundInContains\<close> (304-306) and to
  \<open>foundInSameScope\<close> (309-314, \<open>fileScopes\<close> being \<open>self._scopes[filename]\<close>).
\<close>

definition lookInUse :: "string list \<Rightarrow> (string \<times> string list) list
    \<Rightarrow> (string \<times> (string \<times> string list) list) list \<Rightarrow> string \<Rightarrow> string \<Rightarrow> string
    \<Rightarrow> string list" where
  "lookInUse allScopes scps uses scopePath c kind =
     (let uList = [l. (sc, l) \<leftarrow> uses, sc = scopePath \<or> startswith scopePath (sc @ ''/'')]
      in concat (map (\<lambda>(modName, only).
                   let moduleScope = ''module:'' @ modName;
                       callScope = moduleScope @ ''/'' @ kind @ '':'' @ c
                   in if length only > 0 then
                        (if c \<in> set only \<and> callScope \<in> set allScopes then [callScope] else [])
                      else [callScope. (_, scs) \<leftarrow> scps, callScope \<in> set scs])
                 (concat uList)))"

definition lookElsewhere :: "(string \<times> string list) list \<Rightarrow> string \<Rightarrow> string \<Rightarrow> string list" where
  "lookElsewhere scps c kind =
     (let callScope = kind @ '':'' @ c
      in [callScope. (_, scs) \<leftarrow> scps, callScope \<in> set scs])"

definition lookInInclude :: "(string \<times> string list) list \<Rightarrow> string list \<Rightarrow> string \<Rightarrow> string
    \<Rightarrow> error + string list" where
  "lookInInclude scps incFiles c kind =
     (let callScope = kind @ '':'' @ c
      in forE incFiles (\<lambda>incFile acc.
           bindE (getitem scps incFile) (\<lambda>scs.
             Inr (if callScope \<in> set scs then acc @ [callScope] else acc)))
         [])"

definition lookInContains :: "string list \<Rightarrow> string \<Rightarrow> string \<Rightarrow> string \<Rightarrow> string list" where
  "lookInContains fileScopes scopePath c kind =
     (let callScope = scopePath @ ''/'' @ kind @ '':'' @ c
      in if callScope \<in> set fileScopes then [callScope] else [])"

definition lookInSameScope :: "string list \<Rightarrow> string \<Rightarrow> string \<Rightarrow> string \<Rightarrow> string list" where
  "lookInSameScope fileScopes scopePath c kind =
     (let callScope =
            (if CHR ''/'' \<in> set scopePath
             then rsplit CHR ''/'' 1 scopePath ! 0 @ ''/'' @ kind @ '':'' @ c
             else kind @ '':'' @ c)
      in if callScope \<in> set fileScopes then [callScope] else [])"

text \<open>The loop body, in the order of the source. The tree is threaded through because
  reading \<open>self._incInScope\<close> may fill the caches.\<close>

definition searchKind :: "(string \<Rightarrow> string) \<Rightarrow> string list \<Rightarrow> string \<Rightarrow> string \<Rightarrow> string
    \<Rightarrow> string \<Rightarrow> tree \<times> found \<Rightarrow> error + tree \<times> found" where
  "searchKind realpath allScopes filename scopePath c kind = (\<lambda>(t, fd).
     bindE (getitem (useList t) filename) (\<lambda>uses.
     bindE (incInScope realpath t) (\<lambda>(t', iisOpt).
       case iisOpt of
         None \<Rightarrow> Inl TypeError
       | Some iis \<Rightarrow>
           bindE (getitem iis scopePath) (\<lambda>incFiles.
           bindE (lookInInclude (scopes t') incFiles c kind) (\<lambda>inInclude.
           bindE (getitem (scopes t') filename) (\<lambda>fileScopes.
             Inr (t', \<lparr>foundInUse = foundInUse fd @ lookInUse allScopes (scopes t) uses scopePath c kind,
                       foundElsewhere = foundElsewhere fd @ lookElsewhere (scopes t) c kind,
                       foundInInclude = foundInInclude fd @ inInclude,
                       foundInContains =
                         foundInContains fd @ lookInContains fileScopes scopePath c kind,
                       foundInSameScope =
                         foundInSameScope fd @ lookInSameScope fileScopes scopePath c kind\<rparr>)))))))"

text \<open>Lines 316-338, the final selection: the target appended to the edges of
  \<open>scopePath\<close>, if any. \<open>candidates\<close> is the list
  \<open>foundInUse + foundInInclude + foundInContains + foundInSameScope\<close> once
  \<open>foundInUse\<close> has lost its duplicates. The logging calls have no effect on the Tree.\<close>

definition candidates :: "found \<Rightarrow> string list" where
  "candidates fd =
     uniq (foundInUse fd) @ foundInInclude fd @ foundInContains fd @ foundInSameScope fd"

definition finalSelection :: "string \<Rightarrow> string list \<Rightarrow> found \<Rightarrow> string option" where
  "finalSelection canonicKind allScopes fd =
     (if length (candidates fd) > 1 then Some ''??''
      else if length (candidates fd) = 1 then
        (let r = candidates fd ! 0
         in if canonicKind \<noteq> ''func'' \<or> r \<in> set allScopes then Some r else None)
      else if length (foundElsewhere fd) > 1 then None
      else if length (foundElsewhere fd) = 1 then Some (foundElsewhere fd ! 0)
      else None)"

text \<open>Lines 266-338: one call \<open>c\<close> of \<open>scopePath\<close>.\<close>

definition callStep :: "(string \<Rightarrow> string) \<Rightarrow> string list \<Rightarrow> string \<Rightarrow> string \<Rightarrow> string
    \<Rightarrow> string \<Rightarrow> tree \<times> (string \<times> string list) list
    \<Rightarrow> error + tree \<times> (string \<times> string list) list" where
  "callStep realpath allScopes canonicKind filename scopePath c = (\<lambda>(t, et).
     bindE (forE [canonicKind, ''interface''] (searchKind realpath allScopes filename scopePath c)
              (t, \<lparr>foundInUse = [], foundElsewhere = [], foundInInclude = [],
                   foundInContains = [], foundInSameScope = []\<rparr>))
       (\<lambda>(t', fd).
          case finalSelection canonicKind allScopes fd of
            None \<Rightarrow> Inr (t', et)
          | Some r \<Rightarrow> bindE (extendAt scopePath [r] et) (\<lambda>et'. Inr (t', et'))))"

text \<open>
  Lines 343-359, the named interfaces. \<open>isNamedInterface\<close> is the test of line 346 on
  \<open>itemSplt\<close> (\<open>itemSplt[1]\<close> raises on a one-element list); \<open>bindingTarget\<close> is the
  edge appended for one scope \<open>sub\<close> listed under the interface, \<open>interfaceTargets\<close> the
  edges appended for an interface declared in the file whose scopes are \<open>fileScopes\<close>;
  \<open>flattenItem\<close> is the loop body for one \<open>item\<close> of the copy of \<open>execList\<close>, acting on
  \<open>execList\<close> itself (\<open>remove\<close> raises on an absent element).
\<close>

definition isNamedInterface :: "string \<Rightarrow> error + bool" where
  "isNamedInterface item =
     (let itemSplt = split CHR '':'' (last (split CHR ''/'' item))
      in if itemSplt ! 0 = ''interface'' then
           (if length itemSplt < 2 then Inl IndexError
            else Inr (itemSplt ! 1 \<noteq> ''--UNKNOWN--''))
         else Inr False)"

definition bindingTarget :: "string list \<Rightarrow> string \<Rightarrow> string" where
  "bindingTarget fileScopes sub =
     (let subscopeIn = rsplit CHR ''/'' 2 sub ! 0 @ ''/'' @ last (split CHR ''/'' sub)
      in if subscopeIn \<in> set fileScopes then subscopeIn else last (split CHR ''/'' sub))"

definition interfaceTargets :: "string list \<Rightarrow> string \<Rightarrow> string list" where
  "interfaceTargets fileScopes item =
     map (bindingTarget fileScopes) [sub \<leftarrow> fileScopes. startswith sub (item @ ''/'')]"

definition flattenItem :: "(string \<times> string list) list \<Rightarrow> string \<Rightarrow> string list
    \<Rightarrow> error + string list" where
  "flattenItem scps item execList =
     bindE (isNamedInterface item) (\<lambda>named.
       if named then
         (let filenames = [k. (k, v) \<leftarrow> scps, item \<in> set v]
          in if length filenames = 1 then
               (if item \<in> set execList then
                  bindE (getitem scps (filenames ! 0)) (\<lambda>fileScopes.
                    Inr (remove1 item execList @ interfaceTargets fileScopes item))
                else Inl ValueError)
             else Inr execList)
       else Inr execList)"

text \<open>For stating what the loop does: an item is \<open>expanded\<close> when it passes the test
  of line 346 and exactly one file declares it (line 349); \<open>bindingsOf\<close> are the edges
  that replace it, computed from the scopes of that file.\<close>

definition expanded :: "(string \<times> string list) list \<Rightarrow> string \<Rightarrow> bool" where
  "expanded scps item = (isNamedInterface item = Inr True \<and> length (scopeToFiles scps item) = 1)"

definition bindingsOf :: "(string \<times> string list) list \<Rightarrow> string \<Rightarrow> string list" where
  "bindingsOf scps item =
     (case getitem scps (scopeToFiles scps item ! 0) of
        Inl _ \<Rightarrow> []
      | Inr fileScopes \<Rightarrow> interfaceTargets fileScopes item)"

definition flattenList :: "(string \<times> string list) list \<Rightarrow> string list \<Rightarrow> error + string list" where
  "flattenList scps execList = forE execList (flattenItem scps) execList"

text \<open>The same loop over every entry of the cache: each key owns its list.\<close>

primrec flattenAll :: "(string \<times> string list) list \<Rightarrow> (string \<times> string list) list
    \<Rightarrow> error + (string \<times> string list) list" where
  "flattenAll scps [] = Inr []"
| "flattenAll scps (e # es) =
     bindE (flattenList scps (snd e)) (\<lambda>l.
       bindE (flattenAll scps es) (\<lambda>es'. Inr ((fst e, l) # es')))"

text \<open>Lines 257-363.\<close>

definition buildExecutionTree :: "(string \<Rightarrow> string) \<Rightarrow> tree
    \<Rightarrow> error + tree \<times> (string \<times> string list) list" where
  "buildExecutionTree realpath t =
     (let allScopes = concat (map snd (scopes t));
          et0 = fold (\<lambda>scopePath. AList.update scopePath []) allScopes []
      in bindE (forE [(''sub'', callList t), (''func'', funcList t)] (\<lambda>(canonicKind, progList).
                  forE progList (\<lambda>(filename, callScopes).
                    forE callScopes (\<lambda>(scopePath, cList).
                      forE (uniq cList) (callStep realpath allScopes canonicKind filename scopePath))))
                (t, et0))
           (\<lambda>(t', et).
              bindE (flattenAll (scopes t') et) (\<lambda>et'.
                Inr (t', map (\<lambda>(scopePath, execList). (scopePath, uniq execList)) et'))))"

definition execution_tree :: "(string \<Rightarrow> string) \<Rightarrow> tree
    \<Rightarrow> error + tree \<times> (string \<times> string list) list option" where
  "execution_tree realpath t =
     (if isValid t \<and> cache_execution_tree t = None then
        bindE (buildExecutionTree realpath t) (\<lambda>(t', et).
          Inr (t'\<lparr>cache_execution_tree := Some et\<rparr>, Some et))
      else Inr (t, cache_execution_tree t))"


section \<open>File records: \<open>_analyseFile\<close>, \<open>update\<close>, \<open>fromJson\<close>\<close>

text \<open>
  The argument of \<open>_analyseFile\<close> is a \<open>PYFTscope\<close> object (here: the file name its
  \<open>getFileName\<close> gives) or a file name. What the outside world answers is a parameter:
  \<open>isfile\<close> is \<open>os.path.isfile\<close>, and \<open>analysis\<close> is the outcome of lines 382-437 for
  the file, that is the parse by \<open>conservativePYFT\<close> and the xml queries that collect,
  per scope, the include, use, call and function names: the five entries stored under the
  file name, or the exception raised on the way.
\<close>

datatype fileArg = PYFTscope string | FileName string

record fileRecord =
  recScopes :: "string list"
  recUses :: "(string \<times> (string \<times> string list) list) list"
  recIncludes :: "(string \<times> string list) list"
  recCalls :: "(string \<times> string list) list"
  recFuncs :: "(string \<times> string list) list"

record world =
  isfile :: "string \<Rightarrow> bool"
  analysis :: "fileArg \<Rightarrow> error + fileRecord"

text \<open>
  \<^verbatim>\<open>
  if isinstance(file, pyft.scope.PYFTscope) or os.path.isfile(file):
      ... filename = filename[2:] if filename.startswith('./') else filename
      self._scopes[filename] = [] ...
  else:
      if filename in self._scopes:
          del self._scopes[filename], self._includeList[filename], ...
  \<close>
  In the \<open>else\<close> branch \<open>filename\<close> is a local variable of the function that no
  statement has assigned yet: reading it raises \<open>UnboundLocalError\<close>, and the \<open>del\<close>
  statement is never reached.
\<close>

definition analyseFile :: "world \<Rightarrow> fileArg \<Rightarrow> tree \<Rightarrow> error + tree" where
  "analyseFile w file t =
     (if (case file of PYFTscope _ \<Rightarrow> True | FileName f \<Rightarrow> isfile w f) then
        bindE (analysis w file) (\<lambda>r.
          let filename = (case file of PYFTscope f \<Rightarrow> f | FileName f \<Rightarrow> f);
              filename = (if startswith filename ''./'' then drop 2 filename else filename)
          in Inr (t\<lparr>scopes := AList.update filename (recScopes r) (scopes t),
                    includeList := AList.update filename (recIncludes r) (includeList t),
                    useList := AList.update filename (recUses r) (useList t),
                    callList := AList.update filename (recCalls r) (callList t),
                    funcList := AList.update filename (recFuncs r) (funcList t)\<rparr>))
      else Inl UnboundLocalError)"

text \<open>The argument of \<open>update\<close>: one file, or a list or set of files (a set in the
  order its iteration gives).\<close>

datatype updateArg = One fileArg | Many "fileArg list"

definition update :: "world \<Rightarrow> updateArg \<Rightarrow> tree \<Rightarrow> error + tree" where
  "update w file t =
     (if isValid t then
        (let files = (case file of One f \<Rightarrow> [f] | Many fs \<Rightarrow> fs)
         in if length files \<noteq> 0 then
              bindE (forE files (analyseFile w) t) (\<lambda>t'. Inr (emptyCache t'))
            else Inr t)
      else Inr t)"

text \<open>\<open>fromJson\<close>: \<open>descTree\<close> is the document read from the file; its six entries
  replace the fields of the Tree, and nothing else is assigned.\<close>

record descTree =
  dCwd :: string
  dScopes :: "(string \<times> string list) list"
  dUseList :: "(string \<times> string list) perScope"
  dIncludeList :: "string perScope"
  dCallList :: "string perScope"
  dFuncList :: "string perScope"

definition fromJson :: "descTree \<Rightarrow> tree \<Rightarrow> tree" where
  "fromJson d t = t\<lparr>cwd := dCwd d, scopes := dScopes d, useList := dUseList d,
                     includeList := dIncludeList d, callList := dCallList d,
                     funcList := dFuncList d\<rparr>"

text \<open>The Tree as \<open>__init__\<close> leaves it when neither a description file nor a list
  of directories is given.\<close>

definition emptyTree :: "string \<Rightarrow> tree" where
  "emptyTree dir = \<lparr>cwd = dir, scopes = [], useList = [], includeList = [], callList = [],
     funcList = [], cache_compilation_tree = None, cache_execution_tree = None,
     cache_incInScope = None\<rparr>"

section \<open>Queries\<close>

text \<open>
  \<open>needsFile\<close>, \<open>neededByFile\<close>, \<open>callsScopes\<close> and \<open>calledByScope\<close> hand the cached
  graph to \<open>_recurList\<close>. The graph is the cache itself, not a copy, so what
  \<open>_recurList\<close> does to its lists stays in the cache. \<open>limit\<close> is the recursion depth at
  which Python raises \<open>RecursionError\<close>; a cache that is \<open>None\<close> has no \<open>get\<close>.
\<close>

definition query :: "nat \<Rightarrow> string \<Rightarrow> (string \<times> string list) list option \<Rightarrow> int option \<Rightarrow> bool
    \<Rightarrow> error + string list \<times> (string \<times> string list) list" where
  "query limit node g level down =
     (case g of
        None \<Rightarrow> Inl AttributeError
      | Some descTreePart \<Rightarrow>
          (case recurList limit node descTreePart level down of
             None \<Rightarrow> Inl RecursionError
           | Some r \<Rightarrow> Inr r))"

definition needsFile :: "nat \<Rightarrow> (string \<Rightarrow> string) \<Rightarrow> string \<Rightarrow> int option \<Rightarrow> tree
    \<Rightarrow> error + string list \<times> tree" where
  "needsFile limit realpath filename level t =
     bindE (compilation_tree realpath t) (\<lambda>(t', g).
       bindE (query limit filename g level True) (\<lambda>(r, g').
         Inr (r, t'\<lparr>cache_compilation_tree := Some g'\<rparr>)))"

definition neededByFile :: "nat \<Rightarrow> (string \<Rightarrow> string) \<Rightarrow> string \<Rightarrow> int option \<Rightarrow> tree
    \<Rightarrow> error + string list \<times> tree" where
  "neededByFile limit realpath filename level t =
     bindE (compilation_tree realpath t) (\<lambda>(t', g).
       bindE (query limit filename g level False) (\<lambda>(r, g').
         Inr (r, t'\<lparr>cache_compilation_tree := Some g'\<rparr>)))"

definition callsScopes :: "nat \<Rightarrow> (string \<Rightarrow> string) \<Rightarrow> string \<Rightarrow> int option \<Rightarrow> tree
    \<Rightarrow> error + string list \<times> tree" where
  "callsScopes limit realpath scopePath level t =
     bindE (execution_tree realpath t) (\<lambda>(t', g).
       bindE (query limit scopePath g level True) (\<lambda>(r, g').
         Inr (r, t'\<lparr>cache_execution_tree := Some g'\<rparr>)))"

definition calledByScope :: "nat \<Rightarrow> (string \<Rightarrow> string) \<Rightarrow> string \<Rightarrow> int option \<Rightarrow> tree
    \<Rightarrow> error + string list \<times> tree" where
  "calledByScope limit realpath scopePath level t =
     bindE (execution_tree realpath t) (\<lambda>(t', g).
       bindE (query limit scopePath g level False) (\<lambda>(r, g').
         Inr (r, t'\<lparr>cache_execution_tree := Some g'\<rparr>)))"


section \<open>Example trees and worlds\<close>

text \<open>A world in which \<open>a.F90\<close> is on disk and analyses to one subroutine.\<close>

definition exWorld :: world where
  "exWorld = \<lparr>isfile = (\<lambda>f. f = ''a.F90''),
      analysis = (\<lambda>_. Inr \<lparr>recScopes = [''sub:A''], recUses = [(''sub:A'', [])],
        recIncludes = [(''sub:A'', [])], recCalls = [(''sub:A'', [])],
        recFuncs = [(''sub:A'', [])]\<rparr>)\<rparr>"

text \<open>A Tree of two tracked files, \<open>a.F90\<close> including \<open>x.inc\<close>, and a description
  file in which \<open>a.F90\<close> includes nothing and \<open>x.inc\<close> is replaced by \<open>y.inc\<close>.\<close>

definition exTree :: tree where
  "exTree = (emptyTree ''/proj'')\<lparr>
     scopes := [(''a.F90'', [''sub:A'']), (''x.inc'', [])],
     useList := [(''a.F90'', [(''sub:A'', [])]), (''x.inc'', [])],
     includeList := [(''a.F90'', [(''sub:A'', [''x.inc''])]), (''x.inc'', [])],
     callList := [(''a.F90'', [(''sub:A'', [])]), (''x.inc'', [])],
     funcList := [(''a.F90'', [(''sub:A'', [])]), (''x.inc'', [])]\<rparr>"

definition exDesc :: descTree where
  "exDesc = \<lparr>dCwd = ''/proj'',
     dScopes = [(''a.F90'', [''sub:A'']), (''y.inc'', [])],
     dUseList = [(''a.F90'', [(''sub:A'', [])]), (''y.inc'', [])],
     dIncludeList = [(''a.F90'', [(''sub:A'', [])]), (''y.inc'', [])],
     dCallList = [(''a.F90'', [(''sub:A'', [])]), (''y.inc'', [])],
     dFuncList = [(''a.F90'', [(''sub:A'', [])]), (''y.inc'', [])]\<rparr>"

text \<open>Two files define \<open>module:FOO\<close>, one defines \<open>module:BAR\<close>, none \<open>module:BAZ\<close>;
  \<open>c.f90\<close> uses the three.\<close>

definition exUseTree :: tree where
  "exUseTree = (emptyTree ''/proj'')\<lparr>
     scopes := [(''a.f90'', [''module:FOO'']), (''b.f90'', [''module:FOO'']),
                (''c.f90'', [''sub:C'']), (''d.f90'', [''module:BAR''])],
     useList := [(''a.f90'', [(''module:FOO'', [])]), (''b.f90'', [(''module:FOO'', [])]),
                 (''c.f90'', [(''sub:C'', [(''FOO'', []), (''BAR'', []), (''BAZ'', [])])]),
                 (''d.f90'', [(''module:BAR'', [])])],
     includeList := [(''a.f90'', [(''module:FOO'', [])]), (''b.f90'', [(''module:FOO'', [])]),
                     (''c.f90'', [(''sub:C'', [])]), (''d.f90'', [(''module:BAR'', [])])],
     callList := [(''a.f90'', [(''module:FOO'', [])]), (''b.f90'', [(''module:FOO'', [])]),
                  (''c.f90'', [(''sub:C'', [])]), (''d.f90'', [(''module:BAR'', [])])],
     funcList := [(''a.f90'', [(''module:FOO'', [])]), (''b.f90'', [(''module:FOO'', [])]),
                  (''c.f90'', [(''sub:C'', [])]), (''d.f90'', [(''module:BAR'', [])])]\<rparr>"

text \<open>The tracked files \<open>sub/x.inc\<close> and \<open>other/x.inc\<close>, and \<open>sub/main.F90\<close> whose
  subroutine has the statement \<open>INCLUDE 'x.inc'\<close>.\<close>

definition exIncTree :: tree where
  "exIncTree = (emptyTree ''/proj'')\<lparr>
     scopes := [(''sub/x.inc'', []), (''other/x.inc'', []), (''sub/main.F90'', [''sub:MAIN''])],
     useList := [(''sub/x.inc'', []), (''other/x.inc'', []), (''sub/main.F90'', [(''sub:MAIN'', [])])],
     includeList := [(''sub/x.inc'', []), (''other/x.inc'', []),
                     (''sub/main.F90'', [(''sub:MAIN'', [''x.inc''])])],
     callList := [(''sub/x.inc'', []), (''other/x.inc'', []), (''sub/main.F90'', [(''sub:MAIN'', [])])],
     funcList := [(''sub/x.inc'', []), (''other/x.inc'', []), (''sub/main.F90'', [(''sub:MAIN'', [])])]\<rparr>"

text \<open>Subroutine \<open>S\<close> of \<open>c.F90\<close> uses the modules \<open>M\<close> and \<open>N\<close>, which both have a
  subroutine \<open>FOO\<close>, and calls \<open>FOO\<close>, \<open>BAR\<close> (of \<open>M\<close> only), \<open>GLOB\<close> (one
  top-level subroutine), \<open>DUP\<close> (a top-level subroutine of two files) and \<open>NONE\<close>.
  \<open>exCallTree1\<close> is the same Tree once the compilation graph has been cached.\<close>

definition exCallTree :: tree where
  "exCallTree = (emptyTree ''/proj'')\<lparr>
     scopes := [(''m.F90'', [''module:M'', ''module:M/sub:FOO'', ''module:M/sub:BAR'']),
                (''n.F90'', [''module:N'', ''module:N/sub:FOO'']),
                (''g.F90'', [''sub:GLOB'']),
                (''d1.F90'', [''sub:DUP'']), (''d2.F90'', [''sub:DUP'']),
                (''c.F90'', [''sub:S''])],
     useList := [(''m.F90'', []), (''n.F90'', []), (''g.F90'', []), (''d1.F90'', []), (''d2.F90'', []),
                 (''c.F90'', [(''sub:S'', [(''M'', []), (''N'', [])])])],
     includeList := [(''m.F90'', []), (''n.F90'', []), (''g.F90'', []), (''d1.F90'', []),
                     (''d2.F90'', []), (''c.F90'', [(''sub:S'', [])])],
     callList := [(''m.F90'', []), (''n.F90'', []), (''g.F90'', []), (''d1.F90'', []), (''d2.F90'', []),
                  (''c.F90'', [(''sub:S'', [''FOO'', ''BAR'', ''GLOB'', ''DUP'', ''NONE''])])],
     funcList := [(''m.F90'', []), (''n.F90'', []), (''g.F90'', []), (''d1.F90'', []), (''d2.F90'', []),
                  (''c.F90'', [(''sub:S'', [])])]\<rparr>"

definition exCallTree1 :: tree where
  "exCallTree1 = exCallTree\<lparr>
     cache_compilation_tree := Some [(''m.F90'', []), (''n.F90'', []), (''g.F90'', []),
       (''d1.F90'', []), (''d2.F90'', []), (''c.F90'', [''m.F90'', ''n.F90''])],
     cache_incInScope := Some [(''sub:S'', [])]\<rparr>"

text \<open>Module \<open>M\<close> of \<open>a.F90\<close> has the named interface \<open>FOO\<close> grouping \<open>B1\<close>, a
  subroutine of the module, and \<open>B2\<close>, which is not; subroutine \<open>S\<close> of \<open>c.F90\<close> uses
  \<open>M\<close> and calls \<open>FOO\<close>. In \<open>exIfaceTree2\<close> a second file, \<open>b.F90\<close>, declares the
  same module and interface.\<close>

definition exIfaceTree :: tree where
  "exIfaceTree = (emptyTree ''/proj'')\<lparr>
     scopes := [(''a.F90'', [''module:M'', ''module:M/interface:FOO'',
                  ''module:M/interface:FOO/sub:B1'', ''module:M/interface:FOO/sub:B2'',
                  ''module:M/sub:B1'']),
                (''c.F90'', [''sub:S''])],
     useList := [(''a.F90'', [(''module:M'', [])]), (''c.F90'', [(''sub:S'', [(''M'', [])])])],
     includeList := [(''a.F90'', [(''module:M'', [])]), (''c.F90'', [(''sub:S'', [])])],
     callList := [(''a.F90'', [(''module:M'', [])]), (''c.F90'', [(''sub:S'', [''FOO''])])],
     funcList := [(''a.F90'', [(''module:M'', [])]), (''c.F90'', [(''sub:S'', [])])]\<rparr>"

definition exIfaceTree2 :: tree where
  "exIfaceTree2 = exIfaceTree\<lparr>
     scopes := scopes exIfaceTree @ [(''b.F90'', [''module:M'', ''module:M/interface:FOO''])],
     useList := useList exIfaceTree @ [(''b.F90'', [(''module:M'', [])])],
     includeList := includeList exIfaceTree @ [(''b.F90'', [(''module:M'', [])])],
     callList := callList exIfaceTree @ [(''b.F90'', [(''module:M'', [])])],
     funcList := funcList exIfaceTree @ [(''b.F90'', [(''module:M'', [])])]\<rparr>"





section \<open>Properties of the reachability engine\<close>

lemma recur_cycle_down:
  "recur fuel True [(''sub:A'', 0), (''sub:B'', Suc 0)] ''sub:B'' None 0
      [[''sub:B''], [''sub:A''], []] = None
   \<and> recur fuel True [(''sub:A'', 0), (''sub:B'', Suc 0)] ''sub:A'' None (Suc 0)
      [[''sub:B''], [''sub:A''], []] = None"
  by (induction fuel) simp_all

text \<open>
  C1. The claim is that the unbounded traversal ends on every graph, cycles included, and
  that the downward closure of \<open>sub:A\<close> in the graph where \<open>sub:A\<close> calls \<open>sub:B\<close> and
  \<open>sub:B\<close> calls \<open>sub:A\<close> is \<open>{sub:A, sub:B}\<close>. On the code the guard
  \<open>r not in currentList\<close> only looks at the list of the caller, which holds \<open>sub:B\<close>
  when \<open>sub:A\<close> is met again and \<open>sub:A\<close> when \<open>sub:B\<close> is: on this very graph the
  recursion never returns, whatever depth it is allowed.
\<close>

theorem recurList_mutual_recursion_never_returns:
  "recurList fuel ''sub:A'' [(''sub:A'', [''sub:B'']), (''sub:B'', [''sub:A''])] None True = None"
  by (cases fuel) (simp_all add: recurList_def recur_cycle_down)

text \<open>
  C2. The claim is that \<open>level=0\<close> returns only the initial node, \<open>level=1\<close> the direct
  edges and \<open>level=None\<close> the transitive closure. On the code the test is
  \<open>level is None or level > 1\<close>, so \<open>level=0\<close> does exactly what \<open>level=1\<close> does: it
  returns the direct edges, here \<open>sub:B\<close> for \<open>sub:A\<close>, and not the initial node.
\<close>

theorem recurList_level0_returns_edges:
  "recurList fuel node g (Some 0) down = recurList fuel node g (Some 1) down
   \<and> recurList 1 ''sub:A'' [(''sub:A'', [''sub:B'']), (''sub:B'', [])] (Some 0) True
       = Some ([''sub:B''], [(''sub:A'', [''sub:B'']), (''sub:B'', [])])"
proof
  show "recurList fuel node g (Some 0) down = recurList fuel node g (Some 1) down"
    by (cases fuel) (simp_all add: recurList_def)
  show "recurList 1 ''sub:A'' [(''sub:A'', [''sub:B'']), (''sub:B'', [])] (Some 0) True
       = Some ([''sub:B''], [(''sub:A'', [''sub:B'']), (''sub:B'', [])])"
    by (simp add: recurList_def)
qed

section \<open>Properties of \<open>update\<close>\<close>

text \<open>
  C10. If the Tree holds no file record (\<open>isValid\<close> is false), \<open>update\<close> does nothing
  for every argument: it returns normally and the Tree, records and caches, is the one it
  was given. No first record enters the index through \<open>update\<close>.
\<close>

theorem update_invalid_noop: "\<not> isValid t \<Longrightarrow> update w file t = Inr t"
  by (simp add: update_def)

theorem update_invalid_noop_witness:
  "\<not> isValid (emptyTree ''/proj'')
   \<and> update exWorld (One (FileName ''a.F90'')) (emptyTree ''/proj'') = Inr (emptyTree ''/proj'')"
proof -
  have h: "\<not> isValid (emptyTree ''/proj'')"
    by (simp add: isValid_def emptyTree_def)
  from update_invalid_noop [OF h] h show ?thesis by simp
qed


lemma forE_absent:
  "FileName f \<in> set files \<Longrightarrow> \<not> isfile w f \<Longrightarrow> \<exists>e. forE files (analyseFile w) t = Inl e"
proof (induction files arbitrary: t)
  case Nil
  then show ?case by simp
next
  case (Cons x xs)
  show ?case
  proof (cases "analyseFile w x t")
    case (Inl e)
    then show ?thesis by simp
  next
    case (Inr t')
    with Cons.prems have "x \<noteq> FileName f"
      by (auto simp: analyseFile_def)
    with Cons.prems have "FileName f \<in> set xs" by simp
    from Cons.IH [OF this Cons.prems(2)] Inr show ?thesis by simp
  qed
qed

text \<open>
  C9. The claim is that passing a tracked file that is no longer on disk through
  \<open>update\<close> removes its record and leaves the other records as they are. On the code the
  branch of \<open>_analyseFile\<close> for such a file reads the variable \<open>filename\<close>, which only
  the other branch assigns: \<open>update\<close> of a valid Tree raises \<open>UnboundLocalError\<close> for
  the file alone, and raises for every list or set that holds it; it never returns a Tree
  without the record.
\<close>

theorem update_absent_file_raises:
  "isValid t \<Longrightarrow> \<not> isfile w f \<Longrightarrow>
     update w (One (FileName f)) t = Inl UnboundLocalError
     \<and> (FileName f \<in> set files \<longrightarrow> (\<exists>e. update w (Many files) t = Inl e))"
proof (intro impI conjI)
  assume a: "isValid t" "\<not> isfile w f"
  then show "update w (One (FileName f)) t = Inl UnboundLocalError"
    by (simp add: update_def analyseFile_def bindE_def)
  assume m: "FileName f \<in> set files"
  then have "files \<noteq> []" by auto
  moreover from forE_absent [OF m a(2)] obtain e where "forE files (analyseFile w) t = Inl e"
    by blast
  ultimately show "\<exists>e. update w (Many files) t = Inl e"
    using a by (simp add: update_def bindE_def)
qed

theorem update_absent_file_raises_witness:
  "isValid exTree \<and> \<not> isfile exWorld ''x.inc''
   \<and> update exWorld (One (FileName ''x.inc'')) exTree = Inl UnboundLocalError
   \<and> FileName ''x.inc'' \<in> set [FileName ''a.F90'', FileName ''x.inc'']
   \<and> (\<exists>e. update exWorld (Many [FileName ''a.F90'', FileName ''x.inc'']) exTree = Inl e)"
proof -
  have v: "isValid exTree"
    by (simp add: isValid_def exTree_def emptyTree_def)
  have a: "\<not> isfile exWorld ''x.inc''"
    by (simp add: exWorld_def)
  have m: "FileName ''x.inc'' \<in> set [FileName ''a.F90'', FileName ''x.inc'']" by simp
  from update_absent_file_raises [OF v a, of "[FileName ''a.F90'', FileName ''x.inc'']"] v a m
  show ?thesis by blast
qed

section \<open>Properties of the caches\<close>

lemma needsFile_exTree:
  "needsFile 10 (abspath ''/proj'') ''a.F90'' (Some 1) exTree =
     Inr ([''x.inc''],
          exTree\<lparr>cache_compilation_tree := Some [(''a.F90'', [''x.inc'']), (''x.inc'', [])],
                 cache_incInScope := Some [(''sub:A'', [''x.inc''])]\<rparr>)"
  by code_simp

lemma needsFile_stale:
  "needsFile 10 (abspath ''/proj'') ''a.F90'' (Some 1)
     (fromJson exDesc (exTree\<lparr>cache_compilation_tree := Some [(''a.F90'', [''x.inc'']), (''x.inc'', [])],
                 cache_incInScope := Some [(''sub:A'', [''x.inc''])]\<rparr>)) =
     Inr ([''x.inc''],
       fromJson exDesc (exTree\<lparr>cache_compilation_tree := Some [(''a.F90'', [''x.inc'']), (''x.inc'', [])],
                 cache_incInScope := Some [(''sub:A'', [''x.inc''])]\<rparr>))"
  by code_simp

lemma needsFile_rebuilt:
  "needsFile 10 (abspath ''/proj'') ''a.F90'' (Some 1)
     (emptyCache (fromJson exDesc (exTree\<lparr>cache_compilation_tree := Some [(''a.F90'', [''x.inc'']), (''x.inc'', [])],
                 cache_incInScope := Some [(''sub:A'', [''x.inc''])]\<rparr>))) =
     Inr ([],
       (fromJson exDesc exTree)\<lparr>cache_compilation_tree := Some [(''a.F90'', []), (''y.inc'', [])],
                 cache_incInScope := Some [(''sub:A'', [])]\<rparr>)"
  by code_simp

text \<open>
  C8. The claim is that every mutation of the file records, by \<open>update\<close> or by a bulk
  load, clears the three caches, so that the next query is answered from the new records.
  On the code \<open>fromJson\<close> assigns the records and leaves the three caches as they are
  (only \<open>update\<close> calls \<open>_emptyCache\<close>). With \<open>exTree\<close>, where \<open>a.F90\<close> includes
  \<open>x.inc\<close>: the query \<open>needsFile('a.F90')\<close> fills the cache; after loading \<open>exDesc\<close>,
  in which \<open>a.F90\<close> includes nothing, the same query still answers \<open>x.inc\<close>, while a
  rebuild from the loaded records answers nothing.
\<close>

theorem fromJson_keeps_stale_caches:
  "cache_compilation_tree (fromJson d t) = cache_compilation_tree t
   \<and> cache_execution_tree (fromJson d t) = cache_execution_tree t
   \<and> cache_incInScope (fromJson d t) = cache_incInScope t
   \<and> (\<exists>t1 t2 t3.
         needsFile 10 (abspath ''/proj'') ''a.F90'' (Some 1) exTree = Inr ([''x.inc''], t1)
         \<and> needsFile 10 (abspath ''/proj'') ''a.F90'' (Some 1) (fromJson exDesc t1)
             = Inr ([''x.inc''], t2)
         \<and> needsFile 10 (abspath ''/proj'') ''a.F90'' (Some 1) (emptyCache (fromJson exDesc t1))
             = Inr ([], t3))"
proof (intro conjI)
  show "\<exists>t1 t2 t3.
         needsFile 10 (abspath ''/proj'') ''a.F90'' (Some 1) exTree = Inr ([''x.inc''], t1)
         \<and> needsFile 10 (abspath ''/proj'') ''a.F90'' (Some 1) (fromJson exDesc t1)
             = Inr ([''x.inc''], t2)
         \<and> needsFile 10 (abspath ''/proj'') ''a.F90'' (Some 1) (emptyCache (fromJson exDesc t1))
             = Inr ([], t3)"
    using needsFile_exTree needsFile_stale needsFile_rebuilt by blast
qed (simp_all add: fromJson_def)


section \<open>Properties of the compilation graph\<close>

lemma bindE_Inr_iff: "bindE m f = Inr y \<longleftrightarrow> (\<exists>x. m = Inr x \<and> f x = Inr y)"
  by (cases m) (simp_all add: bindE_def)

lemma forE_accum:
  assumes step: "\<And>x s s'. x \<in> set xs \<Longrightarrow> I s \<Longrightarrow> body x s = Inr s' \<Longrightarrow>
                   I s' \<and> (\<forall>k. V s' k = map_option (\<lambda>l. l @ c x k) (V s k))"
    and "I s" and "forE xs body s = Inr s'"
  shows "I s' \<and> (\<forall>k. V s' k = map_option (\<lambda>l. l @ concat (map (\<lambda>x. c x k) xs)) (V s k))"
  using assms
proof (induction xs arbitrary: s)
  case Nil
  then show ?case by (simp add: option.map_ident)
next
  case (Cons x xs)
  from Cons.prems(3) obtain s1 where b: "body x s = Inr s1" and r: "forE xs body s1 = Inr s'"
    by (auto split: sum.splits)
  from Cons.prems(1) [OF _ Cons.prems(2) b]
  have i1: "I s1" and v1: "\<forall>k. V s1 k = map_option (\<lambda>l. l @ c x k) (V s k)" by auto
  have "I s' \<and> (\<forall>k. V s' k = map_option (\<lambda>l. l @ concat (map (\<lambda>x. c x k) xs)) (V s1 k))"
    by (rule Cons.IH [OF _ i1 r]) (rule Cons.prems(1), auto)
  with v1 show ?case
    by (simp add: option.map_comp comp_def)
qed

lemma forE_total:
  assumes step: "\<And>x s. x \<in> set xs \<Longrightarrow> I s \<Longrightarrow> \<exists>s'. body x s = Inr s' \<and> I s'"
    and "I s"
  shows "\<exists>s'. forE xs body s = Inr s' \<and> I s'"
  using assms
proof (induction xs arbitrary: s)
  case Nil
  then show ?case by simp
next
  case (Cons x xs)
  from Cons.prems(1) [of x s] Cons.prems(2) obtain s1 where b: "body x s = Inr s1" and i1: "I s1"
    by auto
  have "\<exists>s'. forE xs body s1 = Inr s' \<and> I s'"
    by (rule Cons.IH [OF _ i1]) (rule Cons.prems(1), auto)
  with b show ?case by simp
qed

lemma extendAt_Inr:
  assumes "extendAt k vs d = Inr d'"
  shows "map fst d' = map fst d"
    and "map_of d' k' = (if k' = k then map_option (\<lambda>l. l @ vs) (map_of d k') else map_of d k')"
proof -
  from assms obtain xs where m: "map_of d k = Some xs" and d': "d' = AList.update k (xs @ vs) d"
    by (auto simp: extendAt_def split: option.splits)
  from m have "k \<in> fst ` set d" by (metis map_of_eq_None_iff option.distinct(1))
  then show "map fst d' = map fst d" by (simp add: d' update_keys)
  show "map_of d' k' = (if k' = k then map_option (\<lambda>l. l @ vs) (map_of d k') else map_of d k')"
    by (simp add: d' update_conv' m)
qed

lemma extendAt_total: "k \<in> fst ` set d \<Longrightarrow> \<exists>d'. extendAt k vs d = Inr d'"
  by (cases "map_of d k") (auto simp: extendAt_def map_of_eq_None_iff)

lemma includeStep_Inr:
  assumes "includeStep rp fn sp inc (ct, iis) = Inr (ct', iis')"
  shows "map fst ct' = map fst ct"
    and "map_of ct' k = map_option (\<lambda>l. l @ (if k = fn then [snd (guessFile rp (map fst ct) inc)] else []))
                           (map_of ct k)"
proof -
  obtain found incFilename where g: "guessFile rp (map fst ct) inc = (found, incFilename)"
    by (cases "guessFile rp (map fst ct) inc")
  from assms g have e: "extendAt fn [incFilename] ct = Inr ct'"
    by (auto simp: includeStep_def bindE_Inr_iff split: if_splits)
  from extendAt_Inr(1) [OF e] show "map fst ct' = map fst ct" .
  from extendAt_Inr(2) [OF e, of k] g
  show "map_of ct' k = map_option (\<lambda>l. l @ (if k = fn then [snd (guessFile rp (map fst ct) inc)] else []))
                           (map_of ct k)"
    by (simp add: option.map_ident)
qed


lemma include_inner:
  assumes "forE incList (includeStep rp fn sp) s = Inr s'" and "map fst (fst s) = files"
  shows "map fst (fst s') = files \<and>
         (\<forall>k. map_of (fst s') k = map_option (\<lambda>l. l @ concat (map (\<lambda>inc.
              if k = fn then [snd (guessFile rp files inc)] else []) incList)) (map_of (fst s) k))"
proof (rule forE_accum [where I = "\<lambda>s. map fst (fst s) = files" and V = "\<lambda>s. map_of (fst s)"
      and body = "includeStep rp fn sp", OF _ assms(2) assms(1)])
  fix x s s'
  assume i: "map fst (fst s) = files" and b: "includeStep rp fn sp x s = Inr s'"
  obtain ct iis ct' iis' where s: "s = (ct, iis)" "s' = (ct', iis')"
    by (cases s, cases s')
  from includeStep_Inr [OF b [unfolded s]] i s
  show "map fst (fst s') = files \<and>
        (\<forall>k. map_of (fst s') k = map_option (\<lambda>l. l @ (if k = fn then [snd (guessFile rp files x)] else []))
                (map_of (fst s) k))"
    by simp
qed

lemma include_middle:
  assumes "forE incScopePaths (\<lambda>(scopePath, incList) (ct, iis).
                forE incList (includeStep rp fn scopePath) (ct, AList.update scopePath [] iis)) s = Inr s'"
    and "map fst (fst s) = files"
  shows "map fst (fst s') = files \<and>
         (\<forall>k. map_of (fst s') k = map_option (\<lambda>l. l @ concat (map (\<lambda>(scopePath, incList). concat (map (\<lambda>inc.
              if k = fn then [snd (guessFile rp files inc)] else []) incList)) incScopePaths)) (map_of (fst s) k))"
proof (rule forE_accum [where I = "\<lambda>s. map fst (fst s) = files" and V = "\<lambda>s. map_of (fst s)",
      OF _ assms(2) assms(1)])
  fix x s s'
  assume i: "map fst (fst s) = files"
    and b: "(case x of (scopePath, incList) \<Rightarrow> \<lambda>(ct, iis).
                forE incList (includeStep rp fn scopePath) (ct, AList.update scopePath [] iis)) s = Inr s'"
  obtain sp incList where x: "x = (sp, incList)" by (cases x)
  obtain ct iis where s: "s = (ct, iis)" by (cases s)
  from b have "forE incList (includeStep rp fn sp) (ct, AList.update sp [] iis) = Inr s'"
    by (simp add: x s)
  from include_inner [OF this, of files] i s x
  show "map fst (fst s') = files \<and>
        (\<forall>k. map_of (fst s') k = map_option (\<lambda>l. l @ (case x of (scopePath, incList) \<Rightarrow> concat (map (\<lambda>inc.
              if k = fn then [snd (guessFile rp files inc)] else []) incList))) (map_of (fst s) k))"
    by simp
qed

lemma include_outer:
  assumes "forE il (\<lambda>(filename, incScopePaths).
              forE incScopePaths (\<lambda>(scopePath, incList) (ct, iis).
                forE incList (includeStep rp filename scopePath)
                  (ct, AList.update scopePath [] iis))) s = Inr s'"
    and "map fst (fst s) = files"
  shows "map fst (fst s') = files \<and>
         (\<forall>k. map_of (fst s') k = map_option (\<lambda>l. l @ concat (map (\<lambda>(fn, incScopePaths). concat (map (\<lambda>(scopePath, incList). concat (map (\<lambda>inc.
              if k = fn then [snd (guessFile rp files inc)] else []) incList)) incScopePaths)) il)) (map_of (fst s) k))"
proof (rule forE_accum [where I = "\<lambda>s. map fst (fst s) = files" and V = "\<lambda>s. map_of (fst s)",
      OF _ assms(2) assms(1)])
  fix x s s'
  assume i: "map fst (fst s) = files"
    and b: "(case x of (filename, incScopePaths) \<Rightarrow>
              forE incScopePaths (\<lambda>(scopePath, incList) (ct, iis).
                forE incList (includeStep rp filename scopePath)
                  (ct, AList.update scopePath [] iis))) s = Inr s'"
  obtain fn isp where x: "x = (fn, isp)" by (cases x)
  from b have "forE isp (\<lambda>(scopePath, incList) (ct, iis).
                forE incList (includeStep rp fn scopePath) (ct, AList.update scopePath [] iis)) s = Inr s'"
    by (simp add: x)
  from include_middle [OF this i] x
  show "map fst (fst s') = files \<and>
        (\<forall>k. map_of (fst s') k = map_option (\<lambda>l. l @ (case x of (fn, incScopePaths) \<Rightarrow> concat (map (\<lambda>(scopePath, incList). concat (map (\<lambda>inc.
              if k = fn then [snd (guessFile rp files inc)] else []) incList)) incScopePaths))) (map_of (fst s) k))"
    by simp
qed

lemma includesOf_concat:
  "concat (map (\<lambda>(fn, incScopePaths). concat (map (\<lambda>(scopePath, incList). concat (map (\<lambda>inc.
              if k = fn then [g inc] else []) incList)) incScopePaths)) il)
   = map g (includesOf il k)"
proof -
  have inner: "concat (map (\<lambda>inc. if k = fn then [g inc] else []) incList)
      = map g (concat (map (\<lambda>inc. if fn = k then [inc] else []) incList))" for fn incList
    by (induction incList) auto
  have middle: "concat (map (\<lambda>(scopePath, incList). concat (map (\<lambda>inc.
              if k = fn then [g inc] else []) incList)) isp)
      = map g (concat (map (\<lambda>(scopePath, incList). concat (map (\<lambda>inc.
              if fn = k then [inc] else []) incList)) isp))" for fn isp
    by (induction isp) (auto simp: inner)
  show ?thesis
    unfolding includesOf_def
    by (induction il) (auto simp: middle)
qed

lemma usesOf_concat:
  "concat (map (\<lambda>(fn, uList). concat (map (\<lambda>(modName, only).
              if k = fn then g modName else []) (concat (map snd uList)))) ul)
   = concat (map g (usesOf ul k))"
proof -
  have inner: "concat (map (\<lambda>(modName, only). if k = fn then g modName else []) us)
      = concat (map g (concat (map (\<lambda>(modName, only). if fn = k then [modName] else []) us)))" for fn us
    by (induction us) auto
  show ?thesis
    unfolding usesOf_def
    by (induction ul) (auto simp: inner)
qed

lemma useStep_Inr:
  assumes "useStep scps fn modName ct = Inr ct'"
  shows "map fst ct' = map fst ct"
    and "map_of ct' k = map_option (\<lambda>l. l @ (if k = fn then useTarget scps modName else []))
                           (map_of ct k)"
proof -
  show "map fst ct' = map fst ct"
  proof (cases "useTarget scps modName")
    case Nil
    with assms show ?thesis by (simp add: useStep_def)
  next
    case (Cons a as)
    with assms have "extendAt fn (a # as) ct = Inr ct'" by (simp add: useStep_def)
    from extendAt_Inr(1) [OF this] show ?thesis .
  qed
  show "map_of ct' k = map_option (\<lambda>l. l @ (if k = fn then useTarget scps modName else []))
                           (map_of ct k)"
  proof (cases "useTarget scps modName")
    case Nil
    with assms show ?thesis by (simp add: useStep_def option.map_ident)
  next
    case (Cons a as)
    with assms have "extendAt fn (a # as) ct = Inr ct'" by (simp add: useStep_def)
    from extendAt_Inr(2) [OF this, of k] Cons show ?thesis by (simp add: option.map_ident)
  qed
qed

lemma use_inner:
  assumes "forE us (\<lambda>(modName, _). useStep scps fn modName) ct = Inr ct'"
  shows "map fst ct' = map fst ct \<and>
         (\<forall>k. map_of ct' k = map_option (\<lambda>l. l @ concat (map (\<lambda>(modName, only).
              if k = fn then useTarget scps modName else []) us)) (map_of ct k))"
proof -
  have "map fst ct' = map fst ct \<and>
         (\<forall>k. map_of ct' k = map_option (\<lambda>l. l @ concat (map (\<lambda>x. case x of (modName, only) \<Rightarrow>
              if k = fn then useTarget scps modName else []) us)) (map_of ct k))"
  proof (rule forE_accum [where I = "\<lambda>s. map fst s = map fst ct" and V = map_of, OF _ _ assms])
    fix x s s'
    assume i: "map fst s = map fst ct"
      and b: "(case x of (modName, _) \<Rightarrow> useStep scps fn modName) s = Inr s'"
    obtain m only where x: "x = (m, only)" by (cases x)
    from b have "useStep scps fn m s = Inr s'" by (simp add: x)
    from useStep_Inr [OF this] i x
    show "map fst s' = map fst ct \<and>
          (\<forall>k. map_of s' k = map_option (\<lambda>l. l @ (case x of (modName, only) \<Rightarrow>
              if k = fn then useTarget scps modName else [])) (map_of s k))"
      by simp
  qed simp
  then show ?thesis by simp
qed

lemma use_outer:
  assumes "forE ul (\<lambda>(filename, uList).
             forE (concat (map snd uList)) (\<lambda>(modName, _). useStep scps filename modName)) ct = Inr ct'"
  shows "map fst ct' = map fst ct \<and>
         (\<forall>k. map_of ct' k = map_option (\<lambda>l. l @ concat (map (useTarget scps) (usesOf ul k))) (map_of ct k))"
proof -
  have "map fst ct' = map fst ct \<and>
         (\<forall>k. map_of ct' k = map_option (\<lambda>l. l @ concat (map (\<lambda>x. case x of (fn, uList) \<Rightarrow>
            concat (map (\<lambda>(modName, only).
              if k = fn then useTarget scps modName else []) (concat (map snd uList)))) ul)) (map_of ct k))"
  proof (rule forE_accum [where I = "\<lambda>s. map fst s = map fst ct" and V = map_of, OF _ _ assms])
    fix x s s'
    assume i: "map fst s = map fst ct"
      and b: "(case x of (filename, uList) \<Rightarrow>
             forE (concat (map snd uList)) (\<lambda>(modName, _). useStep scps filename modName)) s = Inr s'"
    obtain fn uList where x: "x = (fn, uList)" by (cases x)
    from b have "forE (concat (map snd uList)) (\<lambda>(modName, _). useStep scps fn modName) s = Inr s'"
      by (simp add: x)
    from use_inner [OF this] i x
    show "map fst s' = map fst ct \<and>
          (\<forall>k. map_of s' k = map_option (\<lambda>l. l @ (case x of (fn, uList) \<Rightarrow>
            concat (map (\<lambda>(modName, only).
              if k = fn then useTarget scps modName else []) (concat (map snd uList))))) (map_of s k))"
      by simp
  qed simp
  then show ?thesis by (simp add: usesOf_concat)
qed

lemma map_of_init: "map_of (map (\<lambda>(f, _). (f, [])) scps) k = (if k \<in> fst ` set scps then Some [] else None)"
  by (induction scps) auto

lemma map_of_uniq:
  "map_of (map (\<lambda>(filename, depList). (filename, uniq depList)) ct) k = map_option uniq (map_of ct k)"
  by (induction ct) auto

lemma buildCompilationTree_edges:
  assumes "buildCompilationTree rp t = Inr (ct, iis)"
  shows "map fst ct = knownFiles t"
    and "map_of ct f =
           (if f \<in> set (knownFiles t) then
              Some (uniq (map (\<lambda>inc. snd (guessFile rp (knownFiles t) inc)) (includesOf (includeList t) f)
                          @ concat (map (useTarget (scopes t)) (usesOf (useList t) f))))
            else None)"
proof -
  let ?ct0 = "map (\<lambda>(f, _). (f, [])) (scopes t)"
  have k0: "map fst ?ct0 = knownFiles t" by (auto simp: knownFiles_def)
  from assms obtain s1 ct2 where
    l1: "forE (includeList t) (\<lambda>(filename, incScopePaths).
              forE incScopePaths (\<lambda>(scopePath, incList) (ct, iis).
                forE incList (includeStep rp filename scopePath)
                  (ct, AList.update scopePath [] iis))) (?ct0, []) = Inr s1"
    and l2: "forE (useList t) (\<lambda>(filename, uList).
                   forE (concat (map snd uList)) (\<lambda>(modName, _). useStep (scopes t) filename modName))
                 (fst s1) = Inr ct2"
    and c: "ct = map (\<lambda>(filename, depList). (filename, uniq depList)) ct2"
    by (auto simp: buildCompilationTree_def bindE_Inr_iff)
  have k0': "map fst (fst (?ct0, []::(string \<times> string list) list)) = knownFiles t"
    using k0 by simp
  note r1 = include_outer [OF l1 k0', unfolded includesOf_concat fst_conv]
  from r1 have a1: "map fst (fst s1) = knownFiles t" by blast
  from r1 have b1: "\<And>k. map_of (fst s1) k = map_option (\<lambda>l. l @ map (\<lambda>inc. snd (guessFile rp (knownFiles t) inc))
                (includesOf (includeList t) k)) (map_of ?ct0 k)"
    by blast
  from use_outer [OF l2] a1
  have a2: "map fst ct2 = knownFiles t"
    and b2: "\<And>k. map_of ct2 k = map_option (\<lambda>l. l @ concat (map (useTarget (scopes t)) (usesOf (useList t) k)))
                (map_of (fst s1) k)"
    by simp_all
  have "map fst ct = map fst ct2" unfolding c by auto
  with a2 show "map fst ct = knownFiles t" by simp
  show "map_of ct f =
           (if f \<in> set (knownFiles t) then
              Some (uniq (map (\<lambda>inc. snd (guessFile rp (knownFiles t) inc)) (includesOf (includeList t) f)
                          @ concat (map (useTarget (scopes t)) (usesOf (useList t) f))))
            else None)"
    by (simp add: c map_of_uniq b2 b1 map_of_init knownFiles_def)
qed


lemma includeStep_total:
  assumes "fn \<in> fst ` set ct" and "sp \<in> fst ` set iis"
  shows "\<exists>ct' iis'. includeStep rp fn sp inc (ct, iis) = Inr (ct', iis')
           \<and> map fst ct' = map fst ct \<and> map fst iis' = map fst iis"
proof -
  obtain found incFilename where g: "guessFile rp (map fst ct) inc = (found, incFilename)"
    by (cases "guessFile rp (map fst ct) inc")
  from extendAt_total [OF assms(1)] obtain ct' where c: "extendAt fn [incFilename] ct = Inr ct'"
    by blast
  from extendAt_total [OF assms(2)] obtain iis' where i: "extendAt sp [incFilename] iis = Inr iis'"
    by blast
  from extendAt_Inr(1) [OF c] extendAt_Inr(1) [OF i] c i g show ?thesis
    by (cases found) (simp_all add: includeStep_def bindE_def)
qed

lemma include_iter_total:
  assumes "fst ` set il \<subseteq> set files" and "map fst (fst s) = files"
  shows "\<exists>s'. forE il (\<lambda>(filename, incScopePaths).
              forE incScopePaths (\<lambda>(scopePath, incList) (ct, iis).
                forE incList (includeStep rp filename scopePath)
                  (ct, AList.update scopePath [] iis))) s = Inr s' \<and> map fst (fst s') = files"
proof (rule forE_total [where I = "\<lambda>s. map fst (fst s) = files", OF _ assms(2)])
  fix x :: "string \<times> (string \<times> string list) list" and s :: "(string \<times> string list) list \<times> (string \<times> string list) list"
  assume xin: "x \<in> set il" and i: "map fst (fst s) = files"
  obtain fn isp where x: "x = (fn, isp)" by (cases x)
  with xin assms(1) have fn: "fn \<in> set files" by force
  have "\<exists>s'. forE isp (\<lambda>(scopePath, incList) (ct, iis).
                forE incList (includeStep rp fn scopePath)
                  (ct, AList.update scopePath [] iis)) s = Inr s' \<and> map fst (fst s') = files"
  proof (rule forE_total [where I = "\<lambda>s. map fst (fst s) = files", OF _ i])
    fix y :: "string \<times> string list" and s :: "(string \<times> string list) list \<times> (string \<times> string list) list"
    assume i: "map fst (fst s) = files"
    obtain sp incList where y: "y = (sp, incList)" by (cases y)
    obtain ct iis where s: "s = (ct, iis)" by (cases s)
    let ?iis = "AList.update sp [] iis"
    have "\<exists>s'. forE incList (includeStep rp fn sp) (ct, ?iis) = Inr s'
            \<and> (map fst (fst s') = files \<and> sp \<in> fst ` set (snd s'))"
    proof (rule forE_total [where I = "\<lambda>s. map fst (fst s) = files \<and> sp \<in> fst ` set (snd s)"])
      show "map fst (fst (ct, ?iis)) = files \<and> sp \<in> fst ` set (snd (ct, ?iis))"
        using i s by (simp add: dom_update)
    next
      fix inc :: string and s :: "(string \<times> string list) list \<times> (string \<times> string list) list"
      assume j: "map fst (fst s) = files \<and> sp \<in> fst ` set (snd s)"
      obtain c2 i2 where s2: "s = (c2, i2)" by (cases s)
      from j s2 fn have "fn \<in> fst ` set c2" and "sp \<in> fst ` set i2"
        by (auto simp flip: set_map)
      from includeStep_total [OF this, of rp inc] j s2
      show "\<exists>s'. includeStep rp fn sp inc s = Inr s'
              \<and> (map fst (fst s') = files \<and> sp \<in> fst ` set (snd s'))"
        by (auto simp flip: set_map)
    qed
    then show "\<exists>s'. (case y of (scopePath, incList) \<Rightarrow> \<lambda>(ct, iis).
                forE incList (includeStep rp fn scopePath)
                  (ct, AList.update scopePath [] iis)) s = Inr s' \<and> map fst (fst s') = files"
      by (auto simp: y s)
  qed
  then show "\<exists>s'. (case x of (filename, incScopePaths) \<Rightarrow>
              forE incScopePaths (\<lambda>(scopePath, incList) (ct, iis).
                forE incList (includeStep rp filename scopePath)
                  (ct, AList.update scopePath [] iis))) s = Inr s' \<and> map fst (fst s') = files"
    by (simp add: x)
qed

lemma useStep_total:
  assumes "fn \<in> fst ` set ct"
  shows "\<exists>ct'. useStep scps fn m ct = Inr ct' \<and> map fst ct' = map fst ct"
proof (cases "useTarget scps m")
  case Nil
  then show ?thesis by (simp add: useStep_def)
next
  case (Cons a as)
  from extendAt_total [OF assms] obtain ct' where c: "extendAt fn (a # as) ct = Inr ct'"
    by blast
  from extendAt_Inr(1) [OF c] c Cons show ?thesis by (simp add: useStep_def)
qed

lemma use_iter_total:
  fixes ul :: "(string \<times> string list) perScope"
  assumes "fst ` set ul \<subseteq> set files" and "map fst ct = files"
  shows "\<exists>ct'. forE ul (\<lambda>(filename, uList).
             forE (concat (map snd uList)) (\<lambda>(modName, _). useStep scps filename modName)) ct = Inr ct'
           \<and> map fst ct' = files"
proof (rule forE_total [where I = "\<lambda>s. map fst s = files", OF _ assms(2)])
  fix x :: "string \<times> (string \<times> (string \<times> string list) list) list" and s :: "(string \<times> string list) list"
  assume xin: "x \<in> set ul" and i: "map fst s = files"
  obtain fn uList where x: "x = (fn, uList)" by (cases x)
  with xin assms(1) have fn: "fn \<in> set files" by force
  have "\<exists>s'. forE (concat (map snd uList)) (\<lambda>(modName, _). useStep scps fn modName) s = Inr s'
          \<and> map fst s' = files"
  proof (rule forE_total [where I = "\<lambda>s. map fst s = files", OF _ i])
    fix y :: "string \<times> string list" and s :: "(string \<times> string list) list"
    assume j: "map fst s = files"
    obtain m only where y: "y = (m, only)" by (cases y)
    from j fn have "fn \<in> fst ` set s" by (auto simp flip: set_map)
    from useStep_total [OF this, of scps m] j
    show "\<exists>s'. (case y of (modName, _) \<Rightarrow> useStep scps fn modName) s = Inr s' \<and> map fst s' = files"
      by (auto simp: y)
  qed
  then show "\<exists>s'. (case x of (filename, uList) \<Rightarrow>
             forE (concat (map snd uList)) (\<lambda>(modName, _). useStep scps filename modName)) s = Inr s'
           \<and> map fst s' = files"
    by (simp add: x)
qed

lemma buildCompilationTree_total:
  assumes "fst ` set (includeList t) \<subseteq> set (knownFiles t)"
    and "fst ` set (useList t) \<subseteq> set (knownFiles t)"
  shows "\<exists>ct iis. buildCompilationTree rp t = Inr (ct, iis)"
proof -
  let ?ct0 = "map (\<lambda>(f, _). (f, [])) (scopes t)"
  have "map fst ?ct0 = knownFiles t" by (auto simp: knownFiles_def)
  then have k0: "map fst (fst (?ct0, []::(string \<times> string list) list)) = knownFiles t" by simp
  from include_iter_total [OF assms(1) k0, of rp] obtain s1 where
    l1: "forE (includeList t) (\<lambda>(filename, incScopePaths).
              forE incScopePaths (\<lambda>(scopePath, incList) (ct, iis).
                forE incList (includeStep rp filename scopePath)
                  (ct, AList.update scopePath [] iis))) (?ct0, []) = Inr s1"
    and k1: "map fst (fst s1) = knownFiles t"
    by blast
  from use_iter_total [OF assms(2) k1, of "scopes t"] obtain ct2 where
    l2: "forE (useList t) (\<lambda>(filename, uList).
             forE (concat (map snd uList)) (\<lambda>(modName, _). useStep (scopes t) filename modName)) (fst s1) = Inr ct2"
    by blast
  obtain c1 i1 where s1: "s1 = (c1, i1)" by (cases s1)
  from l1 l2 s1 show ?thesis
    by (simp add: buildCompilationTree_def bindE_def)
qed

lemma found_list:
  "[f. (f, scs) \<leftarrow> scps, p \<in> set scs] = map fst (filter (\<lambda>(f, scs). p \<in> set scs) scps)"
  by (induction scps) auto

lemma distinct_singleton:
  assumes "distinct xs" and "set xs = {g}"
  shows "xs = [g]"
proof (cases xs)
  case Nil
  with assms show ?thesis by simp
next
  case (Cons a as)
  with assms have a: "a = g" and n: "a \<notin> set as" and s: "set as \<subseteq> {g}" by auto
  have "as = []"
  proof (cases as)
    case Nil
    then show ?thesis .
  next
    case (Cons y ys)
    with s a n show ?thesis by auto
  qed
  with a Cons show ?thesis by simp
qed

lemma length_one: "length xs = 1 \<Longrightarrow> \<exists>g. xs = [g]"
  by (cases xs) auto

lemma useTarget_unique:
  assumes "distinct (map fst scps)"
  shows "{h. \<exists>scs. (h, scs) \<in> set scps \<and> ''module:'' @ M \<in> set scs} = {g} \<Longrightarrow> useTarget scps M = [g]"
    and "\<not> (\<exists>g. {h. \<exists>scs. (h, scs) \<in> set scps \<and> ''module:'' @ M \<in> set scs} = {g}) \<Longrightarrow> useTarget scps M = []"
proof -
  let ?found = "[f. (f, scs) \<leftarrow> scps, ''module:'' @ M \<in> set scs]"
  let ?D = "{h. \<exists>scs. (h, scs) \<in> set scps \<and> ''module:'' @ M \<in> set scs}"
  have d: "distinct ?found"
    unfolding found_list using assms by (rule distinct_map_filter)
  have s: "set ?found = ?D" by auto
  {
    assume "?D = {g}"
    with s have "set ?found = {g}" by simp
    with d have "?found = [g]" by (rule distinct_singleton)
    then show "useTarget scps M = [g]" by (simp add: useTarget_def)
  }
  {
    assume n: "\<not> (\<exists>g. ?D = {g})"
    have "length ?found \<noteq> 1"
    proof
      assume l: "length ?found = 1"
      from length_one [OF l] obtain g where g: "?found = [g]" by blast
      have "set ?found = {g}" unfolding g by simp
      with s have "?D = {g}" by simp
      with n show False by blast
    qed
    then show "useTarget scps M = []" by (simp add: useTarget_def)
  }
qed


lemma set_useTarget:
  assumes "distinct (map fst scps)"
  shows "set (useTarget scps M) = {g. {h. \<exists>scs. (h, scs) \<in> set scps \<and> ''module:'' @ M \<in> set scs} = {g}}"
proof (cases "\<exists>g. {h. \<exists>scs. (h, scs) \<in> set scps \<and> ''module:'' @ M \<in> set scs} = {g}")
  case True
  then obtain g where g: "{h. \<exists>scs. (h, scs) \<in> set scps \<and> ''module:'' @ M \<in> set scs} = {g}" by blast
  from useTarget_unique(1) [OF assms g] have "set (useTarget scps M) = {g}" by simp
  also have "{g} = {g'. {h. \<exists>scs. (h, scs) \<in> set scps \<and> ''module:'' @ M \<in> set scs} = {g'}}"
    unfolding g by auto
  finally show ?thesis .
next
  case False
  from useTarget_unique(2) [OF assms False] False show ?thesis by simp
qed

text \<open>
  C4. For a Tree whose records are keyed by distinct file names, and whose include and use
  records belong to tracked files: the construction of the compilation graph returns, and
  the edges of every tracked file are the targets of its include statements together with,
  for each module \<open>M\<close> it uses, the file \<open>g\<close> when the tracked files defining
  \<open>module:M\<close> are exactly \<open>{g}\<close>. One use statement adds the edge to \<open>g\<close> in that
  case, and adds nothing when no file or several files define the module.
\<close>

theorem use_edges_unique_definition:
  assumes d: "distinct (knownFiles t)"
    and i: "fst ` set (includeList t) \<subseteq> set (knownFiles t)"
    and u: "fst ` set (useList t) \<subseteq> set (knownFiles t)"
  shows "(\<exists>ct iis. buildCompilationTree rp t = Inr (ct, iis) \<and>
           (\<forall>f \<in> set (knownFiles t). \<exists>deps. map_of ct f = Some deps \<and>
              set deps = (\<lambda>inc. snd (guessFile rp (knownFiles t) inc)) ` set (includesOf (includeList t) f)
                \<union> {g. \<exists>M \<in> set (usesOf (useList t) f).
                      {h. \<exists>scs. (h, scs) \<in> set (scopes t) \<and> ''module:'' @ M \<in> set scs} = {g}}))
         \<and> ({h. \<exists>scs. (h, scs) \<in> set (scopes t) \<and> ''module:'' @ M \<in> set scs} = {g}
              \<longrightarrow> useStep (scopes t) f M ct = extendAt f [g] ct)
         \<and> (\<not> (\<exists>g. {h. \<exists>scs. (h, scs) \<in> set (scopes t) \<and> ''module:'' @ M \<in> set scs} = {g})
              \<longrightarrow> useStep (scopes t) f M ct = Inr ct)"
proof (intro conjI impI)
  from d have ds: "distinct (map fst (scopes t))" by (simp add: knownFiles_def)
  from buildCompilationTree_total [OF i u, of rp] obtain c0 i0 where
    b: "buildCompilationTree rp t = Inr (c0, i0)" by blast
  have ed: "\<exists>deps. map_of c0 f = Some deps \<and>
              set deps = (\<lambda>inc. snd (guessFile rp (knownFiles t) inc)) ` set (includesOf (includeList t) f)
                \<union> {g. \<exists>M \<in> set (usesOf (useList t) f).
                      {h. \<exists>scs. (h, scs) \<in> set (scopes t) \<and> ''module:'' @ M \<in> set scs} = {g}}"
    if f: "f \<in> set (knownFiles t)" for f
  proof -
    have "set (concat (map (useTarget (scopes t)) (usesOf (useList t) f)))
        = {g. \<exists>M \<in> set (usesOf (useList t) f).
                      {h. \<exists>scs. (h, scs) \<in> set (scopes t) \<and> ''module:'' @ M \<in> set scs} = {g}}"
      by (auto simp: set_useTarget [OF ds])
    with buildCompilationTree_edges(2) [OF b, of f] f show ?thesis
      by (simp add: uniq_def)
  qed
  show "\<exists>ct iis. buildCompilationTree rp t = Inr (ct, iis) \<and>
           (\<forall>f \<in> set (knownFiles t). \<exists>deps. map_of ct f = Some deps \<and>
              set deps = (\<lambda>inc. snd (guessFile rp (knownFiles t) inc)) ` set (includesOf (includeList t) f)
                \<union> {g. \<exists>M \<in> set (usesOf (useList t) f).
                      {h. \<exists>scs. (h, scs) \<in> set (scopes t) \<and> ''module:'' @ M \<in> set scs} = {g}})"
    by (rule exI [where x = c0], rule exI [where x = i0], rule conjI [OF b], rule ballI, rule ed)
  {
    assume "{h. \<exists>scs. (h, scs) \<in> set (scopes t) \<and> ''module:'' @ M \<in> set scs} = {g}"
    from useTarget_unique(1) [OF ds this] show "useStep (scopes t) f M ct = extendAt f [g] ct"
      by (simp add: useStep_def)
  }
  {
    assume "\<not> (\<exists>g. {h. \<exists>scs. (h, scs) \<in> set (scopes t) \<and> ''module:'' @ M \<in> set scs} = {g})"
    from useTarget_unique(2) [OF ds this] show "useStep (scopes t) f M ct = Inr ct"
      by (simp add: useStep_def)
  }
qed

lemma exUseTree_build:
  "buildCompilationTree (abspath ''/proj'') exUseTree =
     Inr ([(''a.f90'', []), (''b.f90'', []), (''c.f90'', [''d.f90'']), (''d.f90'', [])],
          [(''module:FOO'', []), (''sub:C'', []), (''module:BAR'', [])])"
  by code_simp

theorem use_edges_unique_definition_witness:
  "distinct (knownFiles exUseTree)
   \<and> fst ` set (includeList exUseTree) \<subseteq> set (knownFiles exUseTree)
   \<and> fst ` set (useList exUseTree) \<subseteq> set (knownFiles exUseTree)
   \<and> (\<exists>ct iis. buildCompilationTree (abspath ''/proj'') exUseTree = Inr (ct, iis)
         \<and> map_of ct ''c.f90'' = Some [''d.f90'']
         \<and> (\<exists>deps. map_of ct ''c.f90'' = Some deps \<and>
              set deps = (\<lambda>inc. snd (guessFile (abspath ''/proj'') (knownFiles exUseTree) inc))
                             ` set (includesOf (includeList exUseTree) ''c.f90'')
                \<union> {g. \<exists>M \<in> set (usesOf (useList exUseTree) ''c.f90'').
                      {h. \<exists>scs. (h, scs) \<in> set (scopes exUseTree) \<and> ''module:'' @ M \<in> set scs} = {g}}))
   \<and> useStep (scopes exUseTree) ''c.f90'' ''FOO'' [(''c.f90'', [])] = Inr [(''c.f90'', [])]
   \<and> useStep (scopes exUseTree) ''c.f90'' ''BAR'' [(''c.f90'', [])] = Inr [(''c.f90'', [''d.f90''])]"
proof -
  have h1: "distinct (knownFiles exUseTree)"
    by (simp add: knownFiles_def exUseTree_def emptyTree_def)
  have h2: "fst ` set (includeList exUseTree) \<subseteq> set (knownFiles exUseTree)"
    by (simp add: knownFiles_def exUseTree_def emptyTree_def)
  have h3: "fst ` set (useList exUseTree) \<subseteq> set (knownFiles exUseTree)"
    by (simp add: knownFiles_def exUseTree_def emptyTree_def)
  have f: "''c.f90'' \<in> set (knownFiles exUseTree)"
    by (simp add: knownFiles_def exUseTree_def emptyTree_def)
  note th = use_edges_unique_definition [OF h1 h2 h3, of "abspath ''/proj''"]
  have s1: "useStep (scopes exUseTree) ''c.f90'' ''FOO'' [(''c.f90'', [])] = Inr [(''c.f90'', [])]"
    by code_simp
  have s2: "useStep (scopes exUseTree) ''c.f90'' ''BAR'' [(''c.f90'', [])] = Inr [(''c.f90'', [''d.f90''])]"
    by code_simp
  from th [THEN conjunct1] obtain ct iis where b: "buildCompilationTree (abspath ''/proj'') exUseTree = Inr (ct, iis)"
    and a: "\<forall>f \<in> set (knownFiles exUseTree). \<exists>deps. map_of ct f = Some deps \<and>
              set deps = (\<lambda>inc. snd (guessFile (abspath ''/proj'') (knownFiles exUseTree) inc))
                             ` set (includesOf (includeList exUseTree) f)
                \<union> {g. \<exists>M \<in> set (usesOf (useList exUseTree) f).
                      {h. \<exists>scs. (h, scs) \<in> set (scopes exUseTree) \<and> ''module:'' @ M \<in> set scs} = {g}}"
    by (elim exE conjE)
  from b exUseTree_build
  have c: "ct = [(''a.f90'', []), (''b.f90'', []), (''c.f90'', [''d.f90'']), (''d.f90'', [])]"
    by simp
  have m: "map_of ct ''c.f90'' = Some [''d.f90'']" unfolding c by simp
  from a f
  have e: "\<exists>deps. map_of ct ''c.f90'' = Some deps \<and>
              set deps = (\<lambda>inc. snd (guessFile (abspath ''/proj'') (knownFiles exUseTree) inc))
                             ` set (includesOf (includeList exUseTree) ''c.f90'')
                \<union> {g. \<exists>M \<in> set (usesOf (useList exUseTree) ''c.f90'').
                      {h. \<exists>scs. (h, scs) \<in> set (scopes exUseTree) \<and> ''module:'' @ M \<in> set scs} = {g}}"
    by (rule bspec)
  have ex: "\<exists>ct iis. buildCompilationTree (abspath ''/proj'') exUseTree = Inr (ct, iis)
         \<and> map_of ct ''c.f90'' = Some [''d.f90'']
         \<and> (\<exists>deps. map_of ct ''c.f90'' = Some deps \<and>
              set deps = (\<lambda>inc. snd (guessFile (abspath ''/proj'') (knownFiles exUseTree) inc))
                             ` set (includesOf (includeList exUseTree) ''c.f90'')
                \<union> {g. \<exists>M \<in> set (usesOf (useList exUseTree) ''c.f90'').
                      {h. \<exists>scs. (h, scs) \<in> set (scopes exUseTree) \<and> ''module:'' @ M \<in> set scs} = {g}})"
    by (rule exI [where x = ct], rule exI [where x = iis]) (rule conjI [OF b conjI [OF m e]])
  show ?thesis by (intro conjI h1 h2 h3 ex s1 s2)
qed


subsection \<open>Include statements\<close>

lemma classify_filter:
  "classify rp inc files (same, subdir, bn) =
     (same @ [f \<leftarrow> files. normpath inc = normpath f],
      subdir @ [f \<leftarrow> files. normpath inc \<noteq> normpath f \<and> \<not> isabs f
                    \<and> rp inc = rp (join (dirname inc) f)],
      bn @ [f \<leftarrow> files. normpath inc \<noteq> normpath f
                    \<and> \<not> (\<not> isabs f \<and> rp inc = rp (join (dirname inc) f))
                    \<and> basename inc = basename f])"
  by (induction files arbitrary: same subdir bn) auto

lemma list_len_cases: "xs = [] \<or> (\<exists>x. xs = [x]) \<or> 1 < length xs"
  by (cases xs rule: remdups_adj.cases) auto

lemma tier_selection:
  "(let (same, subdir, bn) = (if length s > 1 then ([], [], []) else (s, d, b));
        (subdir, bn) = (if length subdir > 1 then ([], []) else (subdir, bn));
        bn = (if length bn > 1 then [] else bn)
    in if length same > 0 then (True, same ! 0)
       else if length subdir > 0 then (True, subdir ! 0)
       else if length bn > 0 then (True, bn ! 0)
       else (False, inc))
   = (if length s > 1 then (False, inc)
      else if length s = 1 then (True, hd s)
      else if length d > 1 then (False, inc)
      else if length d = 1 then (True, hd d)
      else if length b = 1 then (True, hd b)
      else (False, inc))"
  using list_len_cases [of s] list_len_cases [of d] list_len_cases [of b]
  by (elim disjE exE) simp_all

lemma guessFile_table:
  "guessFile rp files inc =
     (let same = [f \<leftarrow> files. normpath inc = normpath f];
          subdir = [f \<leftarrow> files. normpath inc \<noteq> normpath f \<and> \<not> isabs f
                      \<and> rp inc = rp (join (dirname inc) f)];
          bn = [f \<leftarrow> files. normpath inc \<noteq> normpath f
                      \<and> \<not> (\<not> isabs f \<and> rp inc = rp (join (dirname inc) f))
                      \<and> basename inc = basename f]
      in if length same > 1 then (False, inc)
         else if length same = 1 then (True, hd same)
         else if length subdir > 1 then (False, inc)
         else if length subdir = 1 then (True, hd subdir)
         else if length bn = 1 then (True, hd bn)
         else (False, inc))"
proof -
  have "guessFile rp files inc =
     (let (same, subdir, bn) = ([f \<leftarrow> files. normpath inc = normpath f],
              [f \<leftarrow> files. normpath inc \<noteq> normpath f \<and> \<not> isabs f
                      \<and> rp inc = rp (join (dirname inc) f)],
              [f \<leftarrow> files. normpath inc \<noteq> normpath f
                      \<and> \<not> (\<not> isabs f \<and> rp inc = rp (join (dirname inc) f))
                      \<and> basename inc = basename f]);
          (same, subdir, bn) = (if length same > 1 then ([], [], []) else (same, subdir, bn));
          (subdir, bn) = (if length subdir > 1 then ([], []) else (subdir, bn));
          bn = (if length bn > 1 then [] else bn)
      in if length same > 0 then (True, same ! 0)
         else if length subdir > 0 then (True, subdir ! 0)
         else if length bn > 0 then (True, bn ! 0)
         else (False, inc))"
    by (simp add: guessFile_def classify_filter)
  also have "\<dots> = (let same = [f \<leftarrow> files. normpath inc = normpath f];
          subdir = [f \<leftarrow> files. normpath inc \<noteq> normpath f \<and> \<not> isabs f
                      \<and> rp inc = rp (join (dirname inc) f)];
          bn = [f \<leftarrow> files. normpath inc \<noteq> normpath f
                      \<and> \<not> (\<not> isabs f \<and> rp inc = rp (join (dirname inc) f))
                      \<and> basename inc = basename f]
      in if length same > 1 then (False, inc)
         else if length same = 1 then (True, hd same)
         else if length subdir > 1 then (False, inc)
         else if length subdir = 1 then (True, hd subdir)
         else if length bn = 1 then (True, hd bn)
         else (False, inc))"
    unfolding Let_def prod.case
    by (rule tier_selection [unfolded Let_def])
  finally show ?thesis .
qed

text \<open>
  C5, as stated, fails. With the tracked files \<open>a/x.inc\<close>, \<open>a//x.inc\<close> and \<open>b/x.inc\<close>
  and the include string \<open>a/x.inc\<close>, two files match at the exact tier and exactly one
  at the basename tier; the claim lets the resolution fall through to the basename tier
  and pick \<open>b/x.inc\<close>, the code (\<open>same = subdir = basename = []\<close>) empties all three
  tiers and keeps the raw string.
\<close>

theorem include_tier_counterexample:
  "classify (abspath ''/proj'') ''a/x.inc'' [''a/x.inc'', ''a//x.inc'', ''b/x.inc''] ([], [], [])
     = ([''a/x.inc'', ''a//x.inc''], [], [''b/x.inc''])
   \<and> guessFile (abspath ''/proj'') [''a/x.inc'', ''a//x.inc'', ''b/x.inc''] ''a/x.inc''
     = (False, ''a/x.inc'')"
  by code_simp


lemma path_values:
  "normpath ''x.inc'' = ''x.inc''" "normpath ''sub/x.inc'' = ''sub/x.inc''"
  "normpath ''other/x.inc'' = ''other/x.inc''" "normpath ''sub/main.F90'' = ''sub/main.F90''"
  "dirname ''x.inc'' = []"
  "join [] ''sub/x.inc'' = ''sub/x.inc''" "join [] ''other/x.inc'' = ''other/x.inc''"
  "join [] ''sub/main.F90'' = ''sub/main.F90''"
  "isabs ''sub/x.inc'' = False" "isabs ''other/x.inc'' = False" "isabs ''sub/main.F90'' = False"
  "basename ''x.inc'' = ''x.inc''" "basename ''sub/x.inc'' = ''x.inc''"
  "basename ''other/x.inc'' = ''x.inc''" "basename ''sub/main.F90'' = ''main.F90''"
  by code_simp+

lemma guessFile_bare_name:
  assumes "inj_on realpath {''x.inc'', ''sub/x.inc'', ''other/x.inc'', ''sub/main.F90''}"
  shows "guessFile realpath [''sub/x.inc'', ''other/x.inc'', ''sub/main.F90''] ''x.inc'' = (False, ''x.inc'')"
proof -
  from assms have r: "realpath ''x.inc'' \<noteq> realpath ''sub/x.inc''"
    "realpath ''x.inc'' \<noteq> realpath ''other/x.inc''"
    "realpath ''x.inc'' \<noteq> realpath ''sub/main.F90''"
    by (auto simp: inj_on_def)
  show ?thesis
    by (simp add: guessFile_table path_values r)
qed

text \<open>
  C6, as amended. The resolution of an include string does not look at the including
  file: the subdirectory tier joins the tracked file name to the directory part of the
  include string itself. With \<open>sub/x.inc\<close> and \<open>other/x.inc\<close> tracked, and no two of the
  four names being the same file for \<open>realpath\<close>, \<open>INCLUDE 'x.inc'\<close> in
  \<open>sub/main.F90\<close> matches no file at the exact and subdirectory tiers and both files at
  the basename tier, which is discarded: the edge of \<open>sub/main.F90\<close> is the raw string
  \<open>x.inc\<close>, and no include is recorded as found for its scope.
\<close>

theorem include_bare_name_kept_literal:
  "inj_on realpath {''x.inc'', ''sub/x.inc'', ''other/x.inc'', ''sub/main.F90''} \<Longrightarrow>
   buildCompilationTree realpath exIncTree =
     Inr ([(''sub/x.inc'', []), (''other/x.inc'', []), (''sub/main.F90'', [''x.inc''])],
          [(''sub:MAIN'', [])])"
  by (simp add: buildCompilationTree_def exIncTree_def emptyTree_def includeStep_def bindE_def
      extendAt_def uniq_def guessFile_bare_name)

lemma abspath_distinct:
  "distinct (map (abspath ''/proj'') [''x.inc'', ''sub/x.inc'', ''other/x.inc'', ''sub/main.F90''])"
  by code_simp

theorem include_bare_name_kept_literal_witness:
  "inj_on (abspath ''/proj'') {''x.inc'', ''sub/x.inc'', ''other/x.inc'', ''sub/main.F90''}
   \<and> buildCompilationTree (abspath ''/proj'') exIncTree =
     Inr ([(''sub/x.inc'', []), (''other/x.inc'', []), (''sub/main.F90'', [''x.inc''])],
          [(''sub:MAIN'', [])])"
proof -
  from abspath_distinct
  have "inj_on (abspath ''/proj'') (set [''x.inc'', ''sub/x.inc'', ''other/x.inc'', ''sub/main.F90''])"
    unfolding distinct_map by (rule conjunct2)
  then have i: "inj_on (abspath ''/proj'') {''x.inc'', ''sub/x.inc'', ''other/x.inc'', ''sub/main.F90''}"
    by simp
  from include_bare_name_kept_literal [OF i] i show ?thesis by (rule conjI [rotated])
qed

text \<open>
  C6, as stated, fails: on a file system without links, the process running in \<open>/proj\<close>,
  the include is not resolved to \<open>sub/x.inc\<close>.
\<close>

theorem include_subdir_counterexample:
  "guessFile (abspath ''/proj'') [''sub/x.inc'', ''other/x.inc'', ''sub/main.F90''] ''x.inc''
     \<noteq> (True, ''sub/x.inc'')
   \<and> (\<exists>ct iis. buildCompilationTree (abspath ''/proj'') exIncTree = Inr (ct, iis)
         \<and> map_of ct ''sub/main.F90'' = Some [''x.inc'']
         \<and> map_of iis ''sub:MAIN'' = Some [])"
proof
  show "guessFile (abspath ''/proj'') [''sub/x.inc'', ''other/x.inc'', ''sub/main.F90''] ''x.inc''
     \<noteq> (True, ''sub/x.inc'')"
    by code_simp
  have "buildCompilationTree (abspath ''/proj'') exIncTree =
     Inr ([(''sub/x.inc'', []), (''other/x.inc'', []), (''sub/main.F90'', [''x.inc''])],
          [(''sub:MAIN'', [])])"
    by code_simp
  then show "\<exists>ct iis. buildCompilationTree (abspath ''/proj'') exIncTree = Inr (ct, iis)
         \<and> map_of ct ''sub/main.F90'' = Some [''x.inc'']
         \<and> map_of iis ''sub:MAIN'' = Some []"
    by simp
qed


text \<open>
  C5, as amended. The tracked files are sorted into the exact tier, else the subdirectory
  tier, else the basename tier. More than one file at a tier discards that tier and every
  less specific one; the target is the single file of the most specific tier left
  non-empty, and is the raw include string when no tier is left with a file. Whatever the
  target, resolved file or raw string, it is an edge of the including file in the
  compilation graph: the include is never dropped.
\<close>

theorem include_tiers:
  "guessFile rp files inc =
     (let same = [f \<leftarrow> files. normpath inc = normpath f];
          subdir = [f \<leftarrow> files. normpath inc \<noteq> normpath f \<and> \<not> isabs f
                      \<and> rp inc = rp (join (dirname inc) f)];
          bn = [f \<leftarrow> files. normpath inc \<noteq> normpath f
                      \<and> \<not> (\<not> isabs f \<and> rp inc = rp (join (dirname inc) f))
                      \<and> basename inc = basename f]
      in if length same > 1 then (False, inc)
         else if length same = 1 then (True, hd same)
         else if length subdir > 1 then (False, inc)
         else if length subdir = 1 then (True, hd subdir)
         else if length bn = 1 then (True, hd bn)
         else (False, inc))
   \<and> (buildCompilationTree rp t = Inr (ct, iis) \<and> filename \<in> set (knownFiles t)
        \<and> i \<in> set (includesOf (includeList t) filename)
      \<longrightarrow> (\<exists>deps. map_of ct filename = Some deps
             \<and> snd (guessFile rp (knownFiles t) i) \<in> set deps))"
proof (intro conjI impI)
  show "guessFile rp files inc =
     (let same = [f \<leftarrow> files. normpath inc = normpath f];
          subdir = [f \<leftarrow> files. normpath inc \<noteq> normpath f \<and> \<not> isabs f
                      \<and> rp inc = rp (join (dirname inc) f)];
          bn = [f \<leftarrow> files. normpath inc \<noteq> normpath f
                      \<and> \<not> (\<not> isabs f \<and> rp inc = rp (join (dirname inc) f))
                      \<and> basename inc = basename f]
      in if length same > 1 then (False, inc)
         else if length same = 1 then (True, hd same)
         else if length subdir > 1 then (False, inc)
         else if length subdir = 1 then (True, hd subdir)
         else if length bn = 1 then (True, hd bn)
         else (False, inc))"
    by (rule guessFile_table)
next
  assume a: "buildCompilationTree rp t = Inr (ct, iis) \<and> filename \<in> set (knownFiles t)
        \<and> i \<in> set (includesOf (includeList t) filename)"
  then have b: "buildCompilationTree rp t = Inr (ct, iis)" and f: "filename \<in> set (knownFiles t)"
    and i: "i \<in> set (includesOf (includeList t) filename)"
    by simp_all
  from buildCompilationTree_edges(2) [OF b, of filename] f i
  show "\<exists>deps. map_of ct filename = Some deps \<and> snd (guessFile rp (knownFiles t) i) \<in> set deps"
    by (simp add: uniq_def)
qed

lemma exIncTree_build:
  "buildCompilationTree (abspath ''/proj'') exIncTree =
     Inr ([(''sub/x.inc'', []), (''other/x.inc'', []), (''sub/main.F90'', [''x.inc''])],
          [(''sub:MAIN'', [])])"
  by code_simp

theorem include_tiers_witness:
  "buildCompilationTree (abspath ''/proj'') exIncTree =
     Inr ([(''sub/x.inc'', []), (''other/x.inc'', []), (''sub/main.F90'', [''x.inc''])],
          [(''sub:MAIN'', [])])
   \<and> ''sub/main.F90'' \<in> set (knownFiles exIncTree)
   \<and> ''x.inc'' \<in> set (includesOf (includeList exIncTree) ''sub/main.F90'')
   \<and> guessFile (abspath ''/proj'') (knownFiles exIncTree) ''x.inc'' = (False, ''x.inc'')
   \<and> (\<exists>deps. map_of [(''sub/x.inc'', []), (''other/x.inc'', []), (''sub/main.F90'', [''x.inc''])]
                  ''sub/main.F90'' = Some deps
          \<and> snd (guessFile (abspath ''/proj'') (knownFiles exIncTree) ''x.inc'') \<in> set deps)"
proof -
  have f: "''sub/main.F90'' \<in> set (knownFiles exIncTree)" by code_simp
  have i: "''x.inc'' \<in> set (includesOf (includeList exIncTree) ''sub/main.F90'')" by code_simp
  have g: "guessFile (abspath ''/proj'') (knownFiles exIncTree) ''x.inc'' = (False, ''x.inc'')"
    by code_simp
  note th = include_tiers [of "abspath ''/proj''" "knownFiles exIncTree" "''x.inc''" exIncTree
      "[(''sub/x.inc'', []), (''other/x.inc'', []), (''sub/main.F90'', [''x.inc''])]"
      "[(''sub:MAIN'', [])]" "''sub/main.F90''" "''x.inc''"]
  from th [THEN conjunct2] exIncTree_build f i
  have e: "\<exists>deps. map_of [(''sub/x.inc'', []), (''other/x.inc'', []), (''sub/main.F90'', [''x.inc''])]
                  ''sub/main.F90'' = Some deps
          \<and> snd (guessFile (abspath ''/proj'') (knownFiles exIncTree) ''x.inc'') \<in> set deps"
    by (elim impE) (intro conjI, assumption+)
  show ?thesis by (intro conjI exIncTree_build f i g e)
qed


section \<open>Properties of the execution graph\<close>












lemma hd_nth0: "xs \<noteq> [] \<Longrightarrow> xs ! 0 = hd xs"
  by (cases xs) auto

















lemma exCallTree_search:
  "forE [''sub'', ''interface'']
     (searchKind (abspath ''/proj'') (concat (map snd (scopes exCallTree))) ''c.F90'' ''sub:S'' ''FOO'')
     (exCallTree, \<lparr>foundInUse = [], foundElsewhere = [], foundInInclude = [],
                    foundInContains = [], foundInSameScope = []\<rparr>)
   = Inr (exCallTree1, \<lparr>foundInUse = [''module:M/sub:FOO'', ''module:N/sub:FOO''],
            foundElsewhere = [], foundInInclude = [], foundInContains = [],
            foundInSameScope = []\<rparr>)"
  by code_simp

lemma exCallTree_graph:
  "map_sum id snd (buildExecutionTree (abspath ''/proj'') exCallTree) =
     Inr [(''module:M'', []), (''module:M/sub:FOO'', []), (''module:M/sub:BAR'', []),
          (''module:N'', []), (''module:N/sub:FOO'', []), (''sub:GLOB'', []), (''sub:DUP'', []),
          (''sub:S'', [''??'', ''module:M/sub:BAR'', ''sub:GLOB''])]"
  by code_simp








lemma startswith_CS: "startswith ''module:C/sub:S'' (''module:C'' @ ''/'')"
  by code_simp







subsection \<open>Named interfaces\<close>

lemma scopeToFiles_keys: "set (scopeToFiles scps item) \<subseteq> fst ` set scps"
  by (auto simp: scopeToFiles_def intro: rev_image_eqI)

lemma getitem_key: "k \<in> fst ` set d \<Longrightarrow> \<exists>v. getitem d k = Inr v"
  by (cases "map_of d k") (auto simp: getitem_def map_of_eq_None_iff)

lemma flattenItem_cases:
  assumes "flattenItem scps item cur = Inr cur'"
  shows "(expanded scps item \<and> item \<in> set cur \<and> cur' = remove1 item cur @ bindingsOf scps item)
         \<or> (\<not> expanded scps item \<and> cur' = cur)"
proof -
  from assms obtain named where n: "isNamedInterface item = Inr named"
    and r: "(if named then
         (let filenames = [k. (k, v) \<leftarrow> scps, item \<in> set v]
          in if length filenames = 1 then
               (if item \<in> set cur then
                  bindE (getitem scps (filenames ! 0)) (\<lambda>fileScopes.
                    Inr (remove1 item cur @ interfaceTargets fileScopes item))
                else Inl ValueError)
             else Inr cur)
       else Inr cur) = Inr cur'"
    unfolding flattenItem_def bindE_Inr_iff by blast
  show ?thesis
  proof (cases "named \<and> length (scopeToFiles scps item) = 1")
    case True
    with n have e: "expanded scps item" by (simp add: expanded_def)
    from True r have i: "item \<in> set cur"
      by (auto simp: scopeToFiles_def Let_def split: if_splits)
    from True r i obtain fileScopes where g: "getitem scps (scopeToFiles scps item ! 0) = Inr fileScopes"
      and c: "cur' = remove1 item cur @ interfaceTargets fileScopes item"
      by (auto simp: scopeToFiles_def Let_def bindE_Inr_iff)
    from g c have "cur' = remove1 item cur @ bindingsOf scps item"
      by (simp add: bindingsOf_def)
    with e i show ?thesis by simp
  next
    case False
    with n have "\<not> expanded scps item" by (auto simp: expanded_def)
    moreover from False r have "cur' = cur"
      by (auto simp: scopeToFiles_def Let_def split: if_splits)
    ultimately show ?thesis by simp
  qed
qed

lemma flattenItem_total:
  assumes "isNamedInterface item = Inr b" and "item \<in> set cur"
  shows "\<exists>cur'. flattenItem scps item cur = Inr cur'"
proof (cases "b \<and> length (scopeToFiles scps item) = 1")
  case True
  then have "scopeToFiles scps item \<noteq> []" by auto
  then have "scopeToFiles scps item ! 0 \<in> set (scopeToFiles scps item)" by (simp add: hd_nth0)
  with scopeToFiles_keys have "scopeToFiles scps item ! 0 \<in> fst ` set scps" by blast
  from getitem_key [OF this] obtain v where "getitem scps (scopeToFiles scps item ! 0) = Inr v" by blast
  with True assms show ?thesis
    by (simp add: flattenItem_def bindE_def scopeToFiles_def)
next
  case False
  with assms show ?thesis
    by (auto simp: flattenItem_def bindE_def scopeToFiles_def Let_def)
qed

lemma flatten_mset:
  assumes "forE rest (flattenItem scps) cur = Inr ys" and "mset rest \<subseteq># mset cur"
  shows "mset ys = (mset cur - mset rest) + mset [x \<leftarrow> rest. \<not> expanded scps x]
                   + mset (concat (map (bindingsOf scps) [x \<leftarrow> rest. expanded scps x]))"
  using assms
proof (induction rest arbitrary: cur)
  case Nil
  then show ?case by simp
next
  case (Cons x rest)
  from Cons.prems(1) obtain cur' where f: "flattenItem scps x cur = Inr cur'"
    and r: "forE rest (flattenItem scps) cur' = Inr ys"
    by (auto split: sum.splits)
  from Cons.prems(2) have sub: "mset rest + {#x#} \<subseteq># mset cur" by simp
  then have xin: "x \<in># mset cur" and sub': "mset rest \<subseteq># mset cur - {#x#}"
    by (auto simp: insert_subset_eq_iff mset_subset_eq_insertD)
  from flattenItem_cases [OF f] show ?case
  proof
    assume a: "expanded scps x \<and> x \<in> set cur \<and> cur' = remove1 x cur @ bindingsOf scps x"
    then have c: "mset cur' = mset cur - {#x#} + mset (bindingsOf scps x)" by simp
    with sub' have s2: "mset rest \<subseteq># mset cur'"
      by (simp add: subset_mset.add_increasing2)
    note ih = Cons.IH [OF r s2]
    show ?thesis
    proof (rule multiset_eqI)
      fix b
      from sub have le: "count (mset rest + {#x#}) b \<le> count (mset cur) b"
        by (rule mset_subset_eq_count)
      from ih have "count (mset ys) b = count ((mset cur' - mset rest) + mset [x \<leftarrow> rest. \<not> expanded scps x]
                   + mset (concat (map (bindingsOf scps) [x \<leftarrow> rest. expanded scps x]))) b"
        by simp
      with le a c
      show "count (mset ys) b = count (mset cur - mset (x # rest) + mset [x\<leftarrow>x # rest. \<not> expanded scps x]
                + mset (concat (map (bindingsOf scps) [x\<leftarrow>x # rest. expanded scps x]))) b"
        by (auto split: if_splits)
    qed
  next
    assume a: "\<not> expanded scps x \<and> cur' = cur"
    from sub' have s2: "mset rest \<subseteq># mset cur"
      by (meson diff_subset_eq_self subset_mset.order_trans)
    note ih = Cons.IH [OF r [unfolded a [THEN conjunct2]] s2]
    show ?thesis
    proof (rule multiset_eqI)
      fix b
      from sub have le: "count (mset rest + {#x#}) b \<le> count (mset cur) b"
        by (rule mset_subset_eq_count)
      from ih have "count (mset ys) b = count ((mset cur - mset rest) + mset [x \<leftarrow> rest. \<not> expanded scps x]
                   + mset (concat (map (bindingsOf scps) [x \<leftarrow> rest. expanded scps x]))) b"
        by simp
      with le a
      show "count (mset ys) b = count (mset cur - mset (x # rest) + mset [x\<leftarrow>x # rest. \<not> expanded scps x]
                + mset (concat (map (bindingsOf scps) [x\<leftarrow>x # rest. expanded scps x]))) b"
        by (auto split: if_splits)
    qed
  qed
qed


lemma flatten_total:
  assumes "\<forall>x \<in> set rest. \<exists>b. isNamedInterface x = Inr b" and "mset rest \<subseteq># mset cur"
  shows "\<exists>ys. forE rest (flattenItem scps) cur = Inr ys"
  using assms
proof (induction rest arbitrary: cur)
  case Nil
  then show ?case by simp
next
  case (Cons x rest)
  from Cons.prems(2) have sub: "mset rest + {#x#} \<subseteq># mset cur" by simp
  then have xin: "x \<in> set cur" and sub': "mset rest \<subseteq># mset cur - {#x#}"
    by (auto simp: insert_subset_eq_iff mset_subset_eq_insertD)
  from Cons.prems(1) obtain b where "isNamedInterface x = Inr b" by auto
  from flattenItem_total [OF this xin] obtain cur' where f: "flattenItem scps x cur = Inr cur'"
    by blast
  have s2: "mset rest \<subseteq># mset cur'"
  proof -
    from flattenItem_cases [OF f] have "mset cur - {#x#} \<subseteq># mset cur'"
    proof
      assume "expanded scps x \<and> x \<in> set cur \<and> cur' = remove1 x cur @ bindingsOf scps x"
      then have "mset cur' = (mset cur - {#x#}) + mset (bindingsOf scps x)" by simp
      then show ?thesis by simp
    next
      assume "\<not> expanded scps x \<and> cur' = cur"
      then show ?thesis by (simp add: diff_subset_eq_self)
    qed
    with sub' show ?thesis by (rule subset_mset.order_trans)
  qed
  from Cons.prems(1) have "\<forall>x \<in> set rest. \<exists>b. isNamedInterface x = Inr b" by simp
  from Cons.IH [OF this s2] f show ?case by simp
qed

lemma split_nonempty: "split c s \<noteq> []"
  by (induction s) (auto split: list.splits)

lemma split_append: "split c (a @ c # b) = split c a @ split c b"
proof (induction a)
  case Nil
  then show ?case by simp
next
  case (Cons x a)
  obtain y ys where "split c a = y # ys"
    using split_nonempty [of c a] by (cases "split c a") auto
  with Cons show ?case by simp
qed

lemma split_none: "c \<notin> set u \<Longrightarrow> split c u = [u]"
  by (induction u) auto

lemma joinWith_Cons: "ps \<noteq> [] \<Longrightarrow> joinWith c (p # ps) = p @ c # joinWith c ps"
  by (cases ps) auto

lemma joinWith_split: "joinWith c (split c p) = p"
proof (induction p)
  case Nil
  then show ?case by simp
next
  case (Cons x p)
  obtain y ys where s: "split c p = y # ys"
    using split_nonempty [of c p] by (cases "split c p") auto
  show ?case
  proof (cases "x = c")
    case True
    with Cons show ?thesis by (simp add: joinWith_Cons split_nonempty)
  next
    case False
    with Cons s show ?thesis by (cases ys) auto
  qed
qed

lemma bindingTarget_nested:
  assumes "CHR ''/'' \<notin> set i" and "CHR ''/'' \<notin> set u"
  shows "bindingTarget fileScopes (p @ ''/'' @ i @ ''/'' @ u) =
           (if p @ ''/'' @ u \<in> set fileScopes then p @ ''/'' @ u else u)"
proof -
  let ?parts = "split CHR ''/'' p @ [i, u]"
  have sp: "split CHR ''/'' (p @ ''/'' @ i @ ''/'' @ u) = ?parts"
    using assms by (simp add: split_append split_none)
  have l: "last ?parts = u" by simp
  have n: "split CHR ''/'' p \<noteq> []" by (rule split_nonempty)
  have r: "rsplit CHR ''/'' 2 (p @ ''/'' @ i @ ''/'' @ u) ! 0 = p"
  proof (cases "length (split CHR ''/'' p) \<le> 1")
    case True
    with n obtain x where x: "split CHR ''/'' p = [x]"
      by (cases "split CHR ''/'' p") auto
    from joinWith_split [of "CHR ''/''" p] x have "x = p" by simp
    with x show ?thesis unfolding rsplit_def sp by (simp add: Let_def)
  next
    case False
    then have "take (length ?parts - 1 - 2 + 1) ?parts = split CHR ''/'' p" by simp
    with False show ?thesis unfolding rsplit_def sp
      by (simp add: Let_def joinWith_split)
  qed
  show ?thesis
    unfolding bindingTarget_def r sp l by (simp add: Let_def)
qed

text \<open>
  C7, as amended. In the list of edges of a scope, every item that is a named interface
  (its name not \<open>--UNKNOWN--\<close>) declared in exactly one tracked file is replaced by one
  edge per scope listed under it in that file; every other item, a named interface
  declared in several files included, stays. The loop returns whenever the test of a named
  interface can be made on every item. For an interface nested in a scope \<open>p\<close>, the edge
  for the binding \<open>u\<close> is the unit \<open>p/u\<close> of the scope enclosing the interface when the
  file has it, else the bare unit \<open>u\<close>.
\<close>

theorem interface_flattening:
  "(flattenList scps execList = Inr ys \<longrightarrow>
      set ys = {x \<in> set execList. \<not> expanded scps x}
               \<union> (\<Union>x \<in> {x \<in> set execList. expanded scps x}. set (bindingsOf scps x)))
   \<and> ((\<forall>x \<in> set execList. \<exists>b. isNamedInterface x = Inr b) \<longrightarrow>
        (\<exists>zs. flattenList scps execList = Inr zs))
   \<and> (CHR ''/'' \<notin> set i \<and> CHR ''/'' \<notin> set u \<longrightarrow>
        bindingTarget fileScopes (p @ ''/'' @ i @ ''/'' @ u) =
          (if p @ ''/'' @ u \<in> set fileScopes then p @ ''/'' @ u else u))"
proof (intro conjI impI)
  assume a: "flattenList scps execList = Inr ys"
  from flatten_mset [OF a [unfolded flattenList_def]]
  have "mset ys = mset ([x \<leftarrow> execList. \<not> expanded scps x]
                        @ concat (map (bindingsOf scps) [x \<leftarrow> execList. expanded scps x]))"
    by simp
  then have "set ys = set ([x \<leftarrow> execList. \<not> expanded scps x]
                        @ concat (map (bindingsOf scps) [x \<leftarrow> execList. expanded scps x]))"
    by (rule mset_eq_setD)
  then show "set ys = {x \<in> set execList. \<not> expanded scps x}
                  \<union> (\<Union>x \<in> {x \<in> set execList. expanded scps x}. set (bindingsOf scps x))"
    by auto
next
  assume "\<forall>x \<in> set execList. \<exists>b. isNamedInterface x = Inr b"
  from flatten_total [OF this, of execList scps]
  show "\<exists>zs. flattenList scps execList = Inr zs"
    by (simp add: flattenList_def)
next
  assume "CHR ''/'' \<notin> set i \<and> CHR ''/'' \<notin> set u"
  then have a: "CHR ''/'' \<notin> set i" and b: "CHR ''/'' \<notin> set u" by simp_all
  from bindingTarget_nested [OF a b]
  show "bindingTarget fileScopes (p @ ''/'' @ i @ ''/'' @ u) =
                (if p @ ''/'' @ u \<in> set fileScopes then p @ ''/'' @ u else u)" .
qed

lemma exIfaceTree_graph:
  "map_sum id snd (buildExecutionTree (abspath ''/proj'') exIfaceTree) =
     Inr [(''module:M'', []), (''module:M/interface:FOO'', []),
          (''module:M/interface:FOO/sub:B1'', []), (''module:M/interface:FOO/sub:B2'', []),
          (''module:M/sub:B1'', []), (''sub:S'', [''module:M/sub:B1'', ''sub:B2''])]"
  by code_simp

lemma exIfaceTree_flatten:
  "flattenList (scopes exIfaceTree) [''module:M/interface:FOO''] = Inr [''module:M/sub:B1'', ''sub:B2'']"
  by code_simp

theorem interface_flattening_witness:
  "flattenList (scopes exIfaceTree) [''module:M/interface:FOO''] = Inr [''module:M/sub:B1'', ''sub:B2'']
   \<and> set [''module:M/sub:B1'', ''sub:B2'']
       = {x \<in> set [''module:M/interface:FOO'']. \<not> expanded (scopes exIfaceTree) x}
         \<union> (\<Union>x \<in> {x \<in> set [''module:M/interface:FOO'']. expanded (scopes exIfaceTree) x}.
               set (bindingsOf (scopes exIfaceTree) x))
   \<and> isNamedInterface ''module:M/interface:FOO'' = Inr True
   \<and> (\<exists>zs. flattenList (scopes exIfaceTree) [''module:M/interface:FOO''] = Inr zs)
   \<and> CHR ''/'' \<notin> set ''interface:FOO'' \<and> CHR ''/'' \<notin> set ''sub:B1''
   \<and> bindingTarget [''module:M/sub:B1''] (''module:M'' @ ''/'' @ ''interface:FOO'' @ ''/'' @ ''sub:B1'')
       = (if ''module:M'' @ ''/'' @ ''sub:B1'' \<in> set [''module:M/sub:B1'']
          then ''module:M'' @ ''/'' @ ''sub:B1'' else ''sub:B1'')
   \<and> map_sum id snd (buildExecutionTree (abspath ''/proj'') exIfaceTree) =
     Inr [(''module:M'', []), (''module:M/interface:FOO'', []),
          (''module:M/interface:FOO/sub:B1'', []), (''module:M/interface:FOO/sub:B2'', []),
          (''module:M/sub:B1'', []), (''sub:S'', [''module:M/sub:B1'', ''sub:B2''])]"
proof -
  note th = interface_flattening [where scps = "scopes exIfaceTree"
      and execList = "[''module:M/interface:FOO'']" and ys = "[''module:M/sub:B1'', ''sub:B2'']"
      and i = "''interface:FOO''" and u = "''sub:B1''" and p = "''module:M''"
      and fileScopes = "[''module:M/sub:B1'']"]
  have n: "isNamedInterface ''module:M/interface:FOO'' = Inr True" by code_simp
  then have a: "\<forall>x \<in> set [''module:M/interface:FOO'']. \<exists>b. isNamedInterface x = Inr b" by auto
  have s: "CHR ''/'' \<notin> set ''interface:FOO''" "CHR ''/'' \<notin> set ''sub:B1''" by simp_all
  note c1 = th [THEN conjunct1, THEN mp, OF exIfaceTree_flatten]
  note c2 = th [THEN conjunct2, THEN conjunct1, THEN mp, OF a]
  note c3 = th [THEN conjunct2, THEN conjunct2, THEN mp, OF conjI [OF s]]
  show ?thesis
    by (intro conjI exIfaceTree_flatten c1 n c2 s c3 exIfaceTree_graph)
qed

text \<open>
  C7, as stated, fails on \<open>exIfaceTree2\<close>: the named interface \<open>module:M/interface:FOO\<close>
  is declared in two files, so the test \<open>len(filenames) == 1\<close> keeps it, and it is the
  target of the edge of \<open>sub:S\<close> in the final execution graph.
\<close>

theorem interface_remains_counterexample:
  "isNamedInterface ''module:M/interface:FOO'' = Inr True
   \<and> map_sum id snd (buildExecutionTree (abspath ''/proj'') exIfaceTree2) =
     Inr [(''module:M'', []), (''module:M/interface:FOO'', []),
          (''module:M/interface:FOO/sub:B1'', []), (''module:M/interface:FOO/sub:B2'', []),
          (''module:M/sub:B1'', []), (''sub:S'', [''module:M/interface:FOO''])]"
  by code_simp

end
